theory Spec2Isabelle
  imports Main
begin

section \<open>Python values and failures\<close>

text \<open>
  The program is a single Python module, \<^verbatim>\<open>crib_dragger.py\<close>. Its integers are
  unbounded (\<^typ>\<open>int\<close>), its strings are sequences of code points. The model reads a
  code point below 256 as one \<^typ>\<open>char\<close>; every line boundary that
  \<^verbatim>\<open>str.splitlines\<close> knows below 256 is covered, the two boundaries U+2028 and
  U+2029 lie outside the modelled alphabet.

  Every exception the modelled code can raise is a value: \<open>IndexError\<close> from a list
  subscript, \<open>ValueError\<close> from \<^verbatim>\<open>range\<close> with step zero and from \<^verbatim>\<open>max\<close> of
  an empty list, \<open>RecursionError\<close> when the interpreter's recursion limit is hit.
\<close>

datatype error = IndexError | ValueError | RecursionError

text \<open>
  Subscripting a Python list of \<open>n\<close> elements with an integer \<open>i\<close>: an index in
  \<open>[0, n)\<close> is used as it is, an index in \<open>[-n, 0)\<close> counts from the end, anything
  else raises \<open>IndexError\<close>.
\<close>

definition py_index :: "nat \<Rightarrow> int \<Rightarrow> error + nat" where
  "py_index n i =
     (if 0 \<le> i \<and> i < int n then Inr (nat i)
      else if - int n \<le> i \<and> i < 0 then Inr (nat (int n + i))
      else Inl IndexError)"

definition list_getitem :: "'a list \<Rightarrow> int \<Rightarrow> error + 'a" where
  "list_getitem xs i =
     (case py_index (length xs) i of Inl e \<Rightarrow> Inl e | Inr k \<Rightarrow> Inr (xs ! k))"

definition list_setitem :: "'a list \<Rightarrow> int \<Rightarrow> 'a \<Rightarrow> error + 'a list" where
  "list_setitem xs i v =
     (case py_index (length xs) i of Inl e \<Rightarrow> Inl e | Inr k \<Rightarrow> Inr (xs[k := v]))"

text \<open>The slice \<^verbatim>\<open>xs[:k]\<close>: a negative bound counts from the end, both ends are clipped.\<close>

definition slice_to :: "'a list \<Rightarrow> int \<Rightarrow> 'a list" where
  "slice_to xs k =
     (if k < 0 then take (nat (int (length xs) + k)) xs else take (nat k) xs)"

section \<open>PartialString\<close>

text \<open>
  \<^verbatim>\<open>class PartialString\<close>: the fields \<^verbatim>\<open>replacement\<close>, \<^verbatim>\<open>length\<close> and \<^verbatim>\<open>_value\<close>.
  A cell is \<^verbatim>\<open>None\<close> (unknown) or a character.
\<close>

definition UNKNOWN_CHARACTER :: char where
  "UNKNOWN_CHARACTER = CHR ''_''"

record PartialString =
  replacement :: char
  plength :: int
  pvalue :: "char option list"

text \<open>\<^verbatim>\<open>__init__\<close>: \<^verbatim>\<open>[None]*length\<close> is the empty list for a negative length.\<close>

definition PartialString_init :: "int \<Rightarrow> PartialString" where
  "PartialString_init n =
     \<lparr>replacement = UNKNOWN_CHARACTER, plength = n, pvalue = replicate (nat n) None\<rparr>"


text \<open>
  \<^verbatim>\<open>__getitem__\<close>, \<^verbatim>\<open>__setitem__\<close> and \<^verbatim>\<open>__delitem__\<close> with an integer subscript
  hand the subscript to the cell list without a check of their own.
\<close>

definition ps_getitem :: "PartialString \<Rightarrow> int \<Rightarrow> error + char option" where
  "ps_getitem p i = list_getitem (pvalue p) i"

definition ps_setitem :: "PartialString \<Rightarrow> int \<Rightarrow> char option \<Rightarrow> error + PartialString" where
  "ps_setitem p key v =
     (case list_setitem (pvalue p) key v of
        Inl e \<Rightarrow> Inl e
      | Inr cells \<Rightarrow> Inr (p\<lparr>pvalue := cells\<rparr>))"

definition ps_delitem :: "PartialString \<Rightarrow> int \<Rightarrow> error + PartialString" where
  "ps_delitem p key = ps_setitem p key None"

text \<open>\<^verbatim>\<open>stringify\<close> and \<^verbatim>\<open>__repr__\<close>: an unknown cell is shown as the replacement.\<close>

definition stringify :: "PartialString \<Rightarrow> char option list \<Rightarrow> char option \<Rightarrow> string" where
  "stringify p v subst =
     (let sb = (case subst of None \<Rightarrow> replacement p | Some c \<Rightarrow> c)
      in map (\<lambda>x. case x of None \<Rightarrow> sb | Some c \<Rightarrow> c) v)"

definition ps_repr :: "PartialString \<Rightarrow> string" where
  "ps_repr p = stringify p (pvalue p) None"

text \<open>
  \<^verbatim>\<open>split_lines\<close>: one pass over the cells with the group \<^verbatim>\<open>current\<close> and the groups
  closed so far; the group still open at the end is not returned.
\<close>

fun split_lines_loop ::
  "int \<Rightarrow> char option list list \<Rightarrow> char option list \<Rightarrow> char option list
     \<Rightarrow> char option list list" where
  "split_lines_loop m result current [] = result"
| "split_lines_loop m result current (x # xs) =
     (let closing = (x = Some (CHR 0x0A) \<or> int (length current) = m);
          result' = (if closing then result @ [current] else result);
          current' = (if closing then [] else current)
      in if x = Some (CHR 0x0A) then split_lines_loop m result' current' xs
         else split_lines_loop m result' (current' @ [x]) xs)"

definition split_lines :: "PartialString \<Rightarrow> int \<Rightarrow> char option list list" where
  "split_lines p window_len = split_lines_loop (window_len * 2) [] [] (pvalue p)"

section \<open>Line wrapping\<close>

text \<open>
  \<^verbatim>\<open>str.splitlines()\<close>: a line ends at a line boundary, \<^verbatim>\<open>\r\n\<close> counts as one
  boundary, the boundaries are dropped, and no empty line is produced after a final
  boundary.
\<close>

definition is_linebreak :: "char \<Rightarrow> bool" where
  "is_linebreak c =
     (c \<in> set [CHR 0x0A, CHR 0x0B, CHR 0x0C, CHR 0x0D, CHR 0x1C, CHR 0x1D, CHR 0x1E, CHR 0x85])"

fun splitlines_from :: "string \<Rightarrow> string \<Rightarrow> string list" where
  "splitlines_from cur [] = (if cur = [] then [] else [cur])"
| "splitlines_from cur (c # cs) =
     (if is_linebreak c
      then cur # (case cs of
                    [] \<Rightarrow> splitlines_from [] cs
                  | d # ds \<Rightarrow>
                      if c = CHR 0x0D \<and> d = CHR 0x0A then splitlines_from [] ds
                      else splitlines_from [] cs)
      else splitlines_from (cur @ [c]) cs)"

definition splitlines :: "string \<Rightarrow> string list" where
  "splitlines t = splitlines_from [] t"

text \<open>\<^verbatim>\<open>sep.join(xs)\<close>, used to put the stripped terminators back.\<close>

fun join :: "string \<Rightarrow> string list \<Rightarrow> string" where
  "join sep [] = []"
| "join sep [x] = x"
| "join sep (x # y # ys) = x @ sep @ join sep (y # ys)"

text \<open>
  \<^verbatim>\<open>range(0, stop, step)\<close> for a length \<open>stop\<close>: step zero raises \<open>ValueError\<close>, a
  negative step gives the empty range.
\<close>

definition py_range :: "nat \<Rightarrow> int \<Rightarrow> error + nat list" where
  "py_range stop step =
     (if step = 0 then Inl ValueError
      else if step < 0 then Inr []
      else Inr (map (\<lambda>k. k * nat step) [0 ..< (stop + nat step - 1) div nat step]))"

text \<open>\<^verbatim>\<open>max\<close> of a list raises \<open>ValueError\<close> on the empty list.\<close>

definition py_max :: "nat list \<Rightarrow> error + nat" where
  "py_max xs = (case xs of [] \<Rightarrow> Inl ValueError | y # ys \<Rightarrow> Inr (fold max ys y))"

section \<open>TextArea\<close>

text \<open>
  The widget's fields. \<open>value_ref\<close> is the field \<^verbatim>\<open>value\<close>: a reference to a
  PartialString object in the object store of the session below. \<open>ref_text\<close> is the
  field \<^verbatim>\<open>text\<close>. \<open>cursor_x\<close> and \<open>cursor_y\<close> are reactive attributes.
\<close>

record TextArea =
  ref_text :: string
  value_ref :: nat
  lines :: "string list"
  cursor_x :: int
  cursor_y :: int
  virtual_size :: "nat \<times> nat"

definition NUM_LINES :: nat where
  "NUM_LINES = 3"

definition TextArea_init :: "string \<Rightarrow> nat \<Rightarrow> TextArea" where
  "TextArea_init t v =
     \<lparr>ref_text = t, value_ref = v, lines = [], cursor_x = 0, cursor_y = 0,
      virtual_size = (0, 0)\<rparr>"

text \<open>
  \<^verbatim>\<open>update_lines\<close>. The body of the loop, for one raw line \<open>x\<close>, yields the lines that
  are added to \<^verbatim>\<open>self.lines\<close>; the loop adds them to the list that is already there.
\<close>

definition wrap_line :: "int \<Rightarrow> string \<Rightarrow> error + string list" where
  "wrap_line max_line_length x =
     (if int (length x) \<ge> max_line_length
      then (case py_range (length x) max_line_length of
              Inl e \<Rightarrow> Inl e
            | Inr starts \<Rightarrow> Inr (map (\<lambda>i. take (nat max_line_length) (drop i x)) starts))
      else Inr [x])"

fun extend_lines :: "int \<Rightarrow> string list \<Rightarrow> string list \<Rightarrow> error + string list" where
  "extend_lines max_line_length ls [] = Inr ls"
| "extend_lines max_line_length ls (x # xs) =
     (case wrap_line max_line_length x of
        Inl e \<Rightarrow> Inl e
      | Inr new \<Rightarrow> extend_lines max_line_length (ls @ new) xs)"

definition update_lines :: "int \<Rightarrow> TextArea \<Rightarrow> error + TextArea" where
  "update_lines window_len s =
     (case extend_lines (window_len * 2) (lines s) (splitlines (ref_text s)) of
        Inl e \<Rightarrow> Inl e
      | Inr ls \<Rightarrow>
          (case py_max (map length ls) of
             Inl e \<Rightarrow> Inl e
           | Inr w \<Rightarrow> Inr (s\<lparr>lines := ls, virtual_size := (w, length ls * NUM_LINES)\<rparr>)))"

text \<open>\<^verbatim>\<open>on_resize\<close> with the new width \<^verbatim>\<open>e.size.width\<close>.\<close>

definition on_resize :: "int \<Rightarrow> TextArea \<Rightarrow> error + TextArea" where
  "on_resize width s = update_lines width s"

text \<open>
  The wrap of a text at a width, as the loop computes it on a widget that has no lines
  yet.
\<close>

definition wrap :: "string \<Rightarrow> int \<Rightarrow> error + string list" where
  "wrap t window_len = extend_lines (window_len * 2) [] (splitlines t)"

section \<open>Cursor\<close>

text \<open>
  \<^verbatim>\<open>cursor_x\<close> and \<^verbatim>\<open>cursor_y\<close> are Textual reactive attributes. An assignment
  \<^verbatim>\<open>self.cursor_x = v\<close> reads the stored value, calls \<^verbatim>\<open>validate_cursor_x(v)\<close>, and
  stores the validator's result when it differs from the value read before the
  validator ran. The validators assign to the other attribute, so the four functions call
  each other; the first argument is the call depth that is left, and a chain that uses
  it up ends in \<open>RecursionError\<close>, as in the interpreter. The watchers only scroll the
  view and are not modelled.
\<close>

definition line_length :: "TextArea \<Rightarrow> error + int" where
  "line_length s =
     (case list_getitem (lines s) (cursor_y s) of
        Inl e \<Rightarrow> Inl e
      | Inr line \<Rightarrow> Inr (int (length line)))"

fun set_cursor_x :: "nat \<Rightarrow> TextArea \<Rightarrow> int \<Rightarrow> error + TextArea"
  and validate_cursor_x :: "nat \<Rightarrow> TextArea \<Rightarrow> int \<Rightarrow> error + TextArea \<times> int"
  and set_cursor_y :: "nat \<Rightarrow> TextArea \<Rightarrow> int \<Rightarrow> error + TextArea"
  and validate_cursor_y :: "nat \<Rightarrow> TextArea \<Rightarrow> int \<Rightarrow> error + TextArea \<times> int"
where
  "set_cursor_x 0 s v = Inl RecursionError"
| "set_cursor_x (Suc n) s v =
     (case validate_cursor_x n s v of
        Inl e \<Rightarrow> Inl e
      | Inr (s', x) \<Rightarrow> Inr (if cursor_x s \<noteq> x then s'\<lparr>cursor_x := x\<rparr> else s'))"
| "validate_cursor_x n s x =
     (case (if x < 0
            then (case set_cursor_y n s (cursor_y s - 1) of
                    Inl e \<Rightarrow> Inl e
                  | Inr s1 \<Rightarrow>
                      if cursor_y s = cursor_y s1 then Inr (s1, 0)
                      else (case line_length s1 of
                              Inl e \<Rightarrow> Inl e
                            | Inr l \<Rightarrow> Inr (s1, l - 1)))
            else Inr (s, x)) of
        Inl e \<Rightarrow> Inl e
      | Inr (s1, x1) \<Rightarrow>
          (case (if cursor_y s1 + 1 = int (length (lines s1))
                 then (case line_length s1 of
                         Inl e \<Rightarrow> Inl e
                       | Inr l \<Rightarrow> Inr (if x1 \<ge> l then x1 - 1 else x1))
                 else Inr x1) of
             Inl e \<Rightarrow> Inl e
           | Inr x2 \<Rightarrow>
               (case line_length s1 of
                  Inl e \<Rightarrow> Inl e
                | Inr l \<Rightarrow>
                    if x2 > l - 1
                    then (case set_cursor_y n s1 (cursor_y s1 + 1) of
                            Inl e \<Rightarrow> Inl e
                          | Inr s3 \<Rightarrow> Inr (s3, 0))
                    else Inr (s1, x2))))"
| "set_cursor_y 0 s v = Inl RecursionError"
| "set_cursor_y (Suc n) s v =
     (case validate_cursor_y n s v of
        Inl e \<Rightarrow> Inl e
      | Inr (s', y) \<Rightarrow> Inr (if cursor_y s \<noteq> y then s'\<lparr>cursor_y := y\<rparr> else s'))"
| "validate_cursor_y n s y =
     (let y1 = (if y < 0 then 0 else y);
          y2 = (if y1 \<ge> int (length (lines s)) then int (length (lines s)) - 1 else y1)
      in case list_getitem (lines s) y2 of
           Inl e \<Rightarrow> Inl e
         | Inr line \<Rightarrow>
             (let y3 = (if length line = 0 then y2 + (y2 - cursor_y s) else y2)
              in if cursor_x s > int (length line)
                 then (case set_cursor_x n s (int (length line) - 1) of
                         Inl e \<Rightarrow> Inl e
                       | Inr s' \<Rightarrow> Inr (s', y3))
                 else Inr (s, y3)))"

definition action_cursor_down :: "nat \<Rightarrow> TextArea \<Rightarrow> error + TextArea" where
  "action_cursor_down n s = set_cursor_y n s (cursor_y s + 1)"

definition action_cursor_up :: "nat \<Rightarrow> TextArea \<Rightarrow> error + TextArea" where
  "action_cursor_up n s = set_cursor_y n s (cursor_y s - 1)"

definition action_cursor_left :: "nat \<Rightarrow> TextArea \<Rightarrow> error + TextArea" where
  "action_cursor_left n s = set_cursor_x n s (cursor_x s - 1)"

definition action_cursor_right :: "nat \<Rightarrow> TextArea \<Rightarrow> error + TextArea" where
  "action_cursor_right n s = set_cursor_x n s (cursor_x s + 1)"

datatype move = MoveLeft | MoveRight | MoveUp | MoveDown

fun navigate :: "nat \<Rightarrow> TextArea \<Rightarrow> move \<Rightarrow> error + TextArea" where
  "navigate n s MoveLeft = action_cursor_left n s"
| "navigate n s MoveRight = action_cursor_right n s"
| "navigate n s MoveUp = action_cursor_up n s"
| "navigate n s MoveDown = action_cursor_down n s"

text \<open>A sequence of key presses; the first exception ends it.\<close>

fun navigate_all :: "nat \<Rightarrow> TextArea \<Rightarrow> move list \<Rightarrow> error + TextArea" where
  "navigate_all n s [] = Inr s"
| "navigate_all n s (m # ms) =
     (case navigate n s m of Inl e \<Rightarrow> Inl e | Inr s' \<Rightarrow> navigate_all n s' ms)"

text \<open>The cursor invariant of the specification, as a test on a widget state.\<close>

definition cursor_ok :: "TextArea \<Rightarrow> bool" where
  "cursor_ok s =
     (0 \<le> cursor_y s \<and> cursor_y s < int (length (lines s)) \<and>
      0 \<le> cursor_x s \<and> cursor_x s \<le> int (length (lines s ! nat (cursor_y s))))"

section \<open>Editing and change events\<close>

text \<open>
  The PartialString objects live in an object store: \<open>objects\<close> maps a reference to
  the object, \<open>next_ref\<close> is the first reference not yet handed out. The widget and
  the messages hold references, so that a copy and an alias are different things.
  \<open>posted\<close> is the queue of \<^verbatim>\<open>Changed\<close> messages that \<^verbatim>\<open>post_message\<close> has filled and
  the application has not handled yet. \<open>on_change\<close> is the callback of
  \<^verbatim>\<open>CribDragger\<close>: what it returns without arguments and what it returns for a pair
  of buffers. \<open>calls\<close> records each call of the callback with two arguments.
\<close>

record Changed =
  previous :: nat
  current :: nat

record callback =
  initial :: PartialString
  react :: "PartialString \<Rightarrow> PartialString \<Rightarrow> PartialString"

record session =
  area :: TextArea
  objects :: "nat \<Rightarrow> PartialString"
  next_ref :: nat
  posted :: "Changed list"
  on_change :: "callback option"
  calls :: "(PartialString \<times> PartialString) list"

text \<open>\<^verbatim>\<open>CribDragger.compose\<close>: the buffer comes from the callback or is all unknown.\<close>

definition compose :: "string \<Rightarrow> callback option \<Rightarrow> session" where
  "compose t cb =
     (let v = (case cb of
                 Some f \<Rightarrow> initial f
               | None \<Rightarrow> PartialString_init (int (length t)))
      in \<lparr>area = TextArea_init t 0,
          objects = (\<lambda>r. PartialString_init 0)(0 := v),
          next_ref = 1,
          posted = [],
          on_change = cb,
          calls = []\<rparr>)"

text \<open>\<^verbatim>\<open>deepcopy\<close> of the object behind a reference: a new object with the same contents.\<close>

definition deepcopy :: "session \<Rightarrow> nat \<Rightarrow> session \<times> nat" where
  "deepcopy w r =
     (w\<lparr>objects := (objects w)(next_ref w := objects w r), next_ref := Suc (next_ref w)\<rparr>,
      next_ref w)"

text \<open>The index that \<^verbatim>\<open>replace_char_at_cursor\<close> writes to: \<^verbatim>\<open>start + self.cursor_x\<close>.\<close>

definition line_start :: "TextArea \<Rightarrow> int" where
  "line_start s = sum_list (map (\<lambda>x. int (length x) + 1) (slice_to (lines s) (cursor_y s)))"

definition cursor_index :: "TextArea \<Rightarrow> int" where
  "cursor_index s = line_start s + cursor_x s"

text \<open>
  \<^verbatim>\<open>replace_char_at_cursor\<close>: copy the buffer, write the cell through the live
  reference, post \<^verbatim>\<open>Changed(prev, self.value)\<close>. An \<open>IndexError\<close> of the write leaves
  the function before the message is posted.
\<close>

definition replace_char_at_cursor :: "session \<Rightarrow> char option \<Rightarrow> error + session" where
  "replace_char_at_cursor w c =
     (let start = line_start (area w);
          (w1, prev) = deepcopy w (value_ref (area w))
      in case ps_setitem (objects w1 (value_ref (area w1))) (start + cursor_x (area w1)) c of
           Inl e \<Rightarrow> Inl e
         | Inr p \<Rightarrow>
             Inr (w1\<lparr>objects := (objects w1)(value_ref (area w1) := p),
                     posted := posted w1 @
                       [\<lparr>previous = prev, current = value_ref (area w1)\<rparr>]\<rparr>))"

text \<open>An assignment to a reactive attribute of the session's widget.\<close>

definition with_area :: "session \<Rightarrow> error + TextArea \<Rightarrow> error + session" where
  "with_area w r = (case r of Inl e \<Rightarrow> Inl e | Inr a \<Rightarrow> Inr (w\<lparr>area := a\<rparr>))"

definition action_delete_left :: "nat \<Rightarrow> session \<Rightarrow> error + session" where
  "action_delete_left n w =
     (case with_area w (set_cursor_x n (area w) (cursor_x (area w) - 1)) of
        Inl e \<Rightarrow> Inl e
      | Inr w1 \<Rightarrow> replace_char_at_cursor w1 None)"

definition action_delete_right :: "nat \<Rightarrow> session \<Rightarrow> error + session" where
  "action_delete_right n w =
     (case with_area w (set_cursor_x n (area w) (cursor_x (area w) + 1)) of
        Inl e \<Rightarrow> Inl e
      | Inr w1 \<Rightarrow> replace_char_at_cursor w1 None)"

text \<open>\<^verbatim>\<open>_on_key\<close>: a bound key runs its action, a printable key writes and moves right.\<close>

datatype key = KLeft | KRight | KUp | KDown | KBackspace | KDelete | KPrintable char

fun on_key :: "nat \<Rightarrow> session \<Rightarrow> key \<Rightarrow> error + session" where
  "on_key n w KLeft = with_area w (action_cursor_left n (area w))"
| "on_key n w KRight = with_area w (action_cursor_right n (area w))"
| "on_key n w KUp = with_area w (action_cursor_up n (area w))"
| "on_key n w KDown = with_area w (action_cursor_down n (area w))"
| "on_key n w KBackspace = action_delete_left n w"
| "on_key n w KDelete = action_delete_right n w"
| "on_key n w (KPrintable c) =
     (case replace_char_at_cursor w (Some c) of
        Inl e \<Rightarrow> Inl e
      | Inr w1 \<Rightarrow> with_area w1 (set_cursor_x n (area w1) (cursor_x (area w1) + 1)))"

fun on_keys :: "nat \<Rightarrow> session \<Rightarrow> key list \<Rightarrow> error + session" where
  "on_keys n w [] = Inr w"
| "on_keys n w (k # ks) =
     (case on_key n w k of Inl e \<Rightarrow> Inl e | Inr w' \<Rightarrow> on_keys n w' ks)"



text \<open>The buffer that the widget shows.\<close>

definition buffer :: "session \<Rightarrow> PartialString" where
  "buffer w = objects w (value_ref (area w))"

text \<open>
  Scenario 1 of the specification: the text of the module's main block, no callback,
  and one layout at a width that chunks nothing.
\<close>

definition scenario_text :: string where
  "scenario_text = ''Test'' @ [CHR 0x0A] @ ''Test'' @ [CHR 0x0A] @ ''TEsst''"

definition scenario1 :: "error + session" where
  "scenario1 =
     (let w = compose scenario_text None in with_area w (on_resize 100 (area w)))"

text \<open>What a run shows: the cells of the widget's buffer, one cell, the cursor.\<close>

definition cells :: "error + session \<Rightarrow> error + char option list" where
  "cells r = (case r of Inl e \<Rightarrow> Inl e | Inr w \<Rightarrow> Inr (pvalue (buffer w)))"

definition cell :: "error + session \<Rightarrow> int \<Rightarrow> error + char option" where
  "cell r i = (case r of Inl e \<Rightarrow> Inl e | Inr w \<Rightarrow> ps_getitem (buffer w) i)"

definition cursor :: "error + session \<Rightarrow> error + int \<times> int" where
  "cursor r = (case r of Inl e \<Rightarrow> Inl e | Inr w \<Rightarrow> Inr (cursor_x (area w), cursor_y (area w)))"

definition keys_from :: "error + session \<Rightarrow> nat \<Rightarrow> key list \<Rightarrow> error + session" where
  "keys_from r n ks = (case r of Inl e \<Rightarrow> Inl e | Inr w \<Rightarrow> on_keys n w ks)"

text \<open>
  Scenario 2 of the specification: from scenario 1, four times the right arrow, then
  the letter \<open>X\<close>.
\<close>

definition scenario2 :: "nat \<Rightarrow> error + session" where
  "scenario2 n = keys_from scenario1 n [KRight, KRight, KRight, KRight, KPrintable (CHR ''X'')]"

text \<open>
  The lines of a layout put together again, with one \<^verbatim>\<open>\n\<close> between consecutive lines.
\<close>

definition rejoin :: "error + TextArea \<Rightarrow> error + string" where
  "rejoin r = (case r of Inl e \<Rightarrow> Inl e | Inr s \<Rightarrow> Inr (join [CHR 0x0A] (lines s)))"

text \<open>
  The order that the specification words for the delete key, "clears first, then moves
  right", written out for comparison with \<open>action_delete_right\<close>.
\<close>

definition clear_then_move_right :: "nat \<Rightarrow> session \<Rightarrow> error + session" where
  "clear_then_move_right n w =
     (case replace_char_at_cursor w None of
        Inl e \<Rightarrow> Inl e
      | Inr w1 \<Rightarrow> with_area w1 (set_cursor_x n (area w1) (cursor_x (area w1) + 1)))"



text \<open>The session of a run that did not fail.\<close>

definition session_of :: "error + session \<Rightarrow> session" where
  "session_of r = (case r of Inl e \<Rightarrow> compose [] None | Inr w \<Rightarrow> w)"

text \<open>A run continued by one more operation; a run that failed stays failed.\<close>

definition and_then :: "error + session \<Rightarrow> (session \<Rightarrow> error + session) \<Rightarrow> error + session" where
  "and_then r f = (case r of Inl e \<Rightarrow> Inl e | Inr w \<Rightarrow> f w)"

text \<open>
  Scenario 1 after the letters \<open>A\<close>, \<open>B\<close>, \<open>C\<close> and two left arrows: the cursor is on
  the \<open>B\<close>.
\<close>

definition abc_session :: session where
  "abc_session =
     session_of (keys_from scenario1 2
       [KPrintable (CHR ''A''), KPrintable (CHR ''B''), KPrintable (CHR ''C''), KLeft, KLeft])"

section \<open>Layouts without an empty line\<close>

text \<open>
  A layout with at least one line and no empty line, the length of the line in a row,
  and the row that \<^verbatim>\<open>validate_cursor_y\<close> clamps a requested row to (its first two
  statements).
\<close>

definition no_empty_line :: "TextArea \<Rightarrow> bool" where
  "no_empty_line s = (lines s \<noteq> [] \<and> (\<forall>l\<in>set (lines s). l \<noteq> []))"

definition line_len :: "TextArea \<Rightarrow> int \<Rightarrow> int" where
  "line_len s y = int (length (lines s ! nat y))"

definition clamp_row :: "TextArea \<Rightarrow> int \<Rightarrow> int" where
  "clamp_row s y =
     (let y1 = (if y < 0 then 0 else y)
      in if y1 \<ge> int (length (lines s)) then int (length (lines s)) - 1 else y1)"

text \<open>
  The second statement of \<^verbatim>\<open>validate_cursor_x\<close> for a column that is not negative: on
  the last row a column at or past the line's length is reduced by one.
\<close>

definition pull_back :: "TextArea \<Rightarrow> int \<Rightarrow> int" where
  "pull_back s v =
     (if cursor_y s + 1 = int (length (lines s)) \<and> line_len s (cursor_y s) \<le> v
      then v - 1 else v)"

text \<open>Runs of the widget alone: a layout, assignments to the cursor, key presses.\<close>

definition laid_out :: "string \<Rightarrow> error + TextArea" where
  "laid_out t = on_resize 100 (TextArea_init t 0)"

definition resized :: "int \<Rightarrow> error + TextArea \<Rightarrow> error + TextArea" where
  "resized width r = (case r of Inl e \<Rightarrow> Inl e | Inr s \<Rightarrow> on_resize width s)"

definition assign_x :: "nat \<Rightarrow> int \<Rightarrow> error + TextArea \<Rightarrow> error + TextArea" where
  "assign_x n v r = (case r of Inl e \<Rightarrow> Inl e | Inr s \<Rightarrow> set_cursor_x n s v)"

definition assign_y :: "nat \<Rightarrow> int \<Rightarrow> error + TextArea \<Rightarrow> error + TextArea" where
  "assign_y n v r = (case r of Inl e \<Rightarrow> Inl e | Inr s \<Rightarrow> set_cursor_y n s v)"

definition moves :: "nat \<Rightarrow> move list \<Rightarrow> error + TextArea \<Rightarrow> error + TextArea" where
  "moves n ms r = (case r of Inl e \<Rightarrow> Inl e | Inr s \<Rightarrow> navigate_all n s ms)"

definition position :: "error + TextArea \<Rightarrow> error + int \<times> int" where
  "position r = (case r of Inl e \<Rightarrow> Inl e | Inr s \<Rightarrow> Inr (cursor_x s, cursor_y s))"

definition layout :: "error + TextArea \<Rightarrow> error + string list" where
  "layout r = (case r of Inl e \<Rightarrow> Inl e | Inr s \<Rightarrow> Inr (lines s))"

text \<open>The widget of a run that did not fail.\<close>

definition widget_of :: "error + TextArea \<Rightarrow> TextArea" where
  "widget_of r = (case r of Inl e \<Rightarrow> TextArea_init [] 0 | Inr s \<Rightarrow> s)"

section \<open>Raw lines, chunks and stripped terminators\<close>

text \<open>
  The lines that the loop of \<^verbatim>\<open>update_lines\<close> adds, kept apart by the raw line they
  come from.
\<close>

fun line_groups :: "int \<Rightarrow> string list \<Rightarrow> error + string list list" where
  "line_groups max_line_length [] = Inr []"
| "line_groups max_line_length (x # xs) =
     (case wrap_line max_line_length x of
        Inl e \<Rightarrow> Inl e
      | Inr new \<Rightarrow>
          (case line_groups max_line_length xs of
             Inl e \<Rightarrow> Inl e
           | Inr groups \<Rightarrow> Inr (new # groups)))"

text \<open>
  What \<^verbatim>\<open>str.splitlines()\<close> strips: the line boundaries of a text in their order
  (\<^verbatim>\<open>\r\n\<close> is one boundary), and the boundary at the very end of the text, if the
  text ends with one.
\<close>

fun terminators :: "string \<Rightarrow> string list" where
  "terminators [] = []"
| "terminators (c # cs) =
     (if is_linebreak c
      then (case cs of
              [] \<Rightarrow> [[c]]
            | d # ds \<Rightarrow>
                if c = CHR 0x0D \<and> d = CHR 0x0A then [c, d] # terminators ds
                else [c] # terminators cs)
      else terminators cs)"

fun trailing :: "string \<Rightarrow> string" where
  "trailing [] = []"
| "trailing (c # cs) =
     (if is_linebreak c
      then (case cs of
              [] \<Rightarrow> [c]
            | d # ds \<Rightarrow>
                if c = CHR 0x0D \<and> d = CHR 0x0A
                then (if ds = [] then [c, d] else trailing ds)
                else trailing cs)
      else trailing cs)"

text \<open>
  Lines put together again with the stripped boundaries between consecutive lines, each
  boundary where it was.
\<close>

fun weave :: "string list \<Rightarrow> string list \<Rightarrow> string" where
  "weave [] ts = []"
| "weave [x] ts = x"
| "weave (x # y # ys) [] = x @ weave (y # ys) []"
| "weave (x # y # ys) (t # ts) = x @ t @ weave (y # ys) ts"



section \<open>Buffer access\<close>

lemma py_index_inside: "0 \<le> i \<Longrightarrow> i < int n \<Longrightarrow> py_index n i = Inr (nat i)"
  by (simp add: py_index_def)

lemma py_index_from_end:
  "- int n \<le> i \<Longrightarrow> i < 0 \<Longrightarrow> py_index n i = Inr (nat (int n + i))"
  by (simp add: py_index_def)

lemma py_index_outside: "i \<ge> int n \<or> i < - int n \<Longrightarrow> py_index n i = Inl IndexError"
  by (auto simp: py_index_def)

text \<open>
  C4, as stated, at a concrete input: in a buffer of three cells the index \<open>-1\<close> lies
  outside \<open>[0, 3)\<close>, yet reading it returns the last cell, writing it sets the last
  cell, and clearing it clears the last cell. None of the three accesses fails.
\<close>

theorem negative_index_counterexample:
  "ps_getitem (PartialString_init 3) (- 1) = Inr None \<and>
   map_sum id pvalue (ps_setitem (PartialString_init 3) (- 1) (Some (CHR ''X'')))
     = Inr [None, None, Some (CHR ''X'')] \<and>
   map_sum id pvalue
     (ps_delitem \<lparr>replacement = UNKNOWN_CHARACTER, plength = 2,
                   pvalue = [Some (CHR ''a''), Some (CHR ''b'')]\<rparr> (- 1))
     = Inr [Some (CHR ''a''), None]"
  by (simp add: ps_getitem_def ps_setitem_def ps_delitem_def PartialString_init_def
      list_getitem_def list_setitem_def py_index_def numeral_3_eq_3)

text \<open>
  C4, amended: for a buffer of \<open>n\<close> cells and an index \<open>i\<close> with \<open>i \<ge> n\<close> or
  \<open>i < -n\<close>, each of get, set and clear fails with \<open>IndexError\<close>. An index in
  \<open>[-n, 0)\<close> does not fail: it addresses the cell \<open>n + i\<close>, counted from the end.
\<close>

theorem buffer_access_index:
  "(i \<ge> int (length (pvalue p)) \<or> i < - int (length (pvalue p)) \<longrightarrow>
      ps_getitem p i = Inl IndexError \<and>
      ps_setitem p i c = Inl IndexError \<and>
      ps_delitem p i = Inl IndexError) \<and>
   (- int (length (pvalue p)) \<le> i \<and> i < 0 \<longrightarrow>
      ps_getitem p i = Inr (pvalue p ! nat (int (length (pvalue p)) + i)) \<and>
      ps_setitem p i c = Inr (p\<lparr>pvalue := (pvalue p)[nat (int (length (pvalue p)) + i) := c]\<rparr>) \<and>
      ps_delitem p i =
        Inr (p\<lparr>pvalue := (pvalue p)[nat (int (length (pvalue p)) + i) := None]\<rparr>))"
  by (auto simp: ps_getitem_def ps_setitem_def ps_delitem_def list_getitem_def
      list_setitem_def py_index_def)

theorem buffer_access_index_witness:
  "ps_getitem (PartialString_init 3) 3 = Inl IndexError \<and>
   ps_setitem (PartialString_init 3) (- 4) (Some (CHR ''X'')) = Inl IndexError \<and>
   ps_delitem (PartialString_init 3) 7 = Inl IndexError \<and>
   ps_getitem (PartialString_init 3) (- 3) = Inr None"
  using buffer_access_index [of "PartialString_init 3" 3 None]
    buffer_access_index [of "PartialString_init 3" "- 4" "Some (CHR ''X'')"]
    buffer_access_index [of "PartialString_init 3" 7 None]
    buffer_access_index [of "PartialString_init 3" "- 3" None]
  by (simp add: PartialString_init_def)

section \<open>Line wrapping: width zero and repeated layout\<close>

text \<open>
  C8 at a concrete input: with the text \<open>Test\<close> and width \<open>0\<close> the line limit is
  \<open>0\<close>, every raw line is at least that long, and the chunking asks for a range with
  step \<open>0\<close>. The layout does not loop, but it ends in \<open>ValueError\<close> instead of
  returning the unchunked lines.
\<close>

theorem width_zero_raises:
  "update_lines 0 (TextArea_init ''Test'' 0) = Inl ValueError"
  by (simp add: update_lines_def TextArea_init_def splitlines_def is_linebreak_def
      wrap_line_def py_range_def)

text \<open>
  C7 at a concrete input: the text \<open>ab\<close> laid out at width 100 and then laid out again
  on a resize to width 100. The second layout adds its lines to those of the first, so
  the widget has two lines where the wrap of the text has one.
\<close>

theorem resize_appends_lines:
  "layout (resized 100 (resized 100 (Inr (TextArea_init ''ab'' 0)))) = Inr [''ab'', ''ab''] \<and>
   wrap ''ab'' 100 = Inr [''ab'']"
  by (simp add: layout_def resized_def on_resize_def update_lines_def TextArea_init_def
      splitlines_def is_linebreak_def wrap_line_def py_range_def py_max_def wrap_def)

section \<open>Scenarios\<close>

lemma splitlines_scenario_text: "splitlines scenario_text = [''Test'', ''Test'', ''TEsst'']"
  by (simp add: splitlines_def scenario_text_def is_linebreak_def)

lemma scenario1_eq:
  "scenario1 =
     Inr \<lparr>area = \<lparr>ref_text = scenario_text, value_ref = 0,
                   lines = [''Test'', ''Test'', ''TEsst''], cursor_x = 0, cursor_y = 0,
                   virtual_size = (5, 9)\<rparr>,
          objects = (\<lambda>r. PartialString_init 0)(0 := PartialString_init 15),
          next_ref = 1, posted = [], on_change = None, calls = []\<rparr>"
  by (simp add: scenario1_def compose_def TextArea_init_def on_resize_def update_lines_def
      splitlines_scenario_text wrap_line_def py_max_def NUM_LINES_def with_area_def)
    (simp add: scenario_text_def)

lemmas cursor_eval =
  action_cursor_left_def action_cursor_right_def action_cursor_up_def action_cursor_down_def
  line_length_def list_getitem_def py_index_def with_area_def

lemmas edit_eval =
  replace_char_at_cursor_def deepcopy_def line_start_def slice_to_def ps_setitem_def
  list_setitem_def action_delete_left_def action_delete_right_def

text \<open>
  C1, as stated, at its own input: after four right arrows and the letter \<open>X\<close> the cell
  at linear index 4 (the position of the first terminator) is still unknown.
\<close>

theorem scenario2_cell4_counterexample:
  "cell (scenario2 2) 4 = Inr None"
  by (simp add: scenario2_def keys_from_def scenario1_eq numeral_2_eq_2 cursor_eval edit_eval
      cell_def buffer_def ps_getitem_def PartialString_init_def eval_nat_numeral)

text \<open>
  C1, amended: from scenario 1, four right arrows and then the letter \<open>X\<close> set the
  cell at linear index 5 to \<open>X\<close>, leave every other cell unknown, and leave the cursor
  at column 1, row 1. The fourth right arrow wraps the cursor to column 0 of row 1,
  whose first cell has linear index 5. This holds at every call depth of at least 2.
\<close>

theorem scenario2_cell5:
  assumes "2 \<le> n"
  shows "cells (scenario2 n) =
           Inr [None, None, None, None, None, Some (CHR ''X''), None, None, None, None,
                None, None, None, None, None] \<and>
         cursor (scenario2 n) = Inr (1, 1)"
proof -
  from assms have n: "n = Suc (Suc (n - 2))"
    by simp
  show ?thesis
    by (subst n, subst (2) n) (simp add: scenario2_def keys_from_def scenario1_eq cursor_eval edit_eval
      cells_def cursor_def buffer_def PartialString_init_def eval_nat_numeral)
qed

theorem scenario2_cell5_witness:
  "(2::nat) \<le> 2 \<and>
   cells (scenario2 2) =
     Inr [None, None, None, None, None, Some (CHR ''X''), None, None, None, None,
          None, None, None, None, None] \<and>
   cursor (scenario2 2) = Inr (1, 1)"
  using scenario2_cell5 [of 2] by simp

section \<open>Round trip of the line wrapper\<close>

lemma extend_lines_no_chunk:
  "\<forall>x\<in>set xs. int (length x) < m \<Longrightarrow> extend_lines m ls xs = Inr (ls @ xs)"
  by (induction xs arbitrary: ls) (simp_all add: wrap_line_def)

lemma splitlines_from_Nil_iff: "splitlines_from cur t = [] \<longleftrightarrow> cur = [] \<and> t = []"
  by (induction cur t rule: splitlines_from.induct) (auto split: list.splits)

lemma join_Cons_nonempty: "ys \<noteq> [] \<Longrightarrow> join sep (x # ys) = x @ sep @ join sep ys"
  by (cases ys) simp_all

lemma join_splitlines_from:
  assumes "\<forall>c\<in>set t. is_linebreak c \<longrightarrow> c = CHR 0x0A"
    and "t = [] \<or> last t \<noteq> CHR 0x0A"
  shows "join [CHR 0x0A] (splitlines_from cur t) = cur @ t"
  using assms
proof (induction t arbitrary: cur)
  case Nil
  then show ?case by simp
next
  case (Cons c cs)
  show ?case
  proof (cases "is_linebreak c")
    case False
    have "join [CHR 0x0A] (splitlines_from (cur @ [c]) cs) = (cur @ [c]) @ cs"
      using Cons.prems by (intro Cons.IH) (auto split: if_splits)
    with False show ?thesis by simp
  next
    case True
    with Cons.prems have c: "c = CHR 0x0A" by simp
    with Cons.prems have cs: "cs \<noteq> []" by auto
    have rest: "splitlines_from [] cs \<noteq> []"
      using cs by (simp add: splitlines_from_Nil_iff)
    have ih: "join [CHR 0x0A] (splitlines_from [] cs) = [] @ cs"
      using Cons.prems cs by (intro Cons.IH) (auto split: if_splits)
    have "splitlines_from cur (c # cs) = cur # splitlines_from [] cs"
      using True c by (simp split: list.splits)
    then show ?thesis
      using rest ih c by (simp add: join_Cons_nonempty)
  qed
qed

lemma py_max_nonempty: "xs \<noteq> [] \<Longrightarrow> \<exists>w. py_max xs = Inr w"
  by (cases xs) (simp_all add: py_max_def)

lemma extend_lines_groups:
  "line_groups m xs = Inr G \<Longrightarrow> extend_lines m ls xs = Inr (ls @ concat G)"
  by (induction xs arbitrary: ls G) (auto split: sum.splits)

lemma concat_chunks:
  "concat (map (\<lambda>k. take m (drop (k * m) x)) [0 ..< n]) = take (n * m) x"
proof (induction n)
  case 0
  show ?case by simp
next
  case (Suc n)
  have "take (n * m + m) x = take (n * m) x @ take m (drop (n * m) x)"
    by (rule take_add)
  with Suc show ?case by (simp add: add.commute)
qed

lemma chunks_cover:
  assumes "0 < m"
  shows "length x \<le> ((length x + m - 1) div m) * (m::nat)"
proof -
  have "length x + m - 1 < ((length x + m - 1) div m) * m + m"
    using assms by (metis add.commute dividend_less_div_times mult.commute)
  then show ?thesis by simp
qed

lemma wrap_line_concat:
  assumes "0 < m"
  shows "\<exists>new. wrap_line m x = Inr new \<and> concat new = x \<and> new \<noteq> []"
proof (cases "int (length x) \<ge> m")
  case False
  then show ?thesis by (simp add: wrap_line_def)
next
  case True
  have m: "0 < nat m" using assms by simp
  define n where "n = (length x + nat m - 1) div nat m"
  have "nat m \<le> length x + nat m - 1"
    using True assms by simp
  then have "nat m div nat m \<le> n"
    unfolding n_def by (rule div_le_mono)
  with m have n: "0 < n" by simp
  have c: "concat (map (\<lambda>i. take (nat m) (drop i x)) (map (\<lambda>k. k * nat m) [0 ..< n])) = x"
    using concat_chunks [of "nat m" x n] chunks_cover [OF m, of x]
    by (simp add: comp_def n_def)
  have r: "wrap_line m x = Inr (map (\<lambda>i. take (nat m) (drop i x)) (map (\<lambda>k. k * nat m) [0 ..< n]))"
    using True assms by (simp add: wrap_line_def py_range_def n_def)
  show ?thesis
  proof (intro exI conjI)
    show "wrap_line m x
            = Inr (map (\<lambda>i. take (nat m) (drop i x)) (map (\<lambda>k. k * nat m) [0 ..< n]))"
      by (rule r)
    show "concat (map (\<lambda>i. take (nat m) (drop i x)) (map (\<lambda>k. k * nat m) [0 ..< n])) = x"
      by (rule c)
    show "map (\<lambda>i. take (nat m) (drop i x)) (map (\<lambda>k. k * nat m) [0 ..< n]) \<noteq> []"
      using n by simp
  qed
qed

lemma line_groups_concat:
  assumes "0 < m"
  shows "\<exists>G. line_groups m xs = Inr G \<and> map concat G = xs \<and> [] \<notin> set G"
proof (induction xs)
  case Nil
  show ?case by simp
next
  case (Cons x xs)
  from wrap_line_concat [OF assms, of x] obtain new where
    "wrap_line m x = Inr new" "concat new = x" "new \<noteq> []" by blast
  moreover from Cons obtain G where
    "line_groups m xs = Inr G" "map concat G = xs" "[] \<notin> set G" by blast
  ultimately show ?case by auto
qed

lemma weave_Cons:
  "ys \<noteq> [] \<Longrightarrow> weave (x # ys) (t # ts) = x @ t @ weave ys ts"
  by (cases ys) simp_all

lemma weave_splitlines_from:
  "weave (splitlines_from cur t) (terminators t) @ trailing t = cur @ t"
proof (induction cur t rule: splitlines_from.induct)
  case (1 cur)
  show ?case by simp
next
  case (2 cur c cs)
  show ?case
  proof (cases "is_linebreak c")
    case False
    with 2 show ?thesis by simp
  next
    case br: True
    show ?thesis
    proof (cases cs)
      case Nil
      with br show ?thesis by simp
    next
      case (Cons d ds)
      show ?thesis
      proof (cases "c = CHR 0x0D \<and> d = CHR 0x0A")
        case crlf: True
        show ?thesis
        proof (cases "ds = []")
          case True
          with br Cons crlf show ?thesis by simp
        next
          case False
          then have ne: "splitlines_from [] ds \<noteq> []"
            by (simp add: splitlines_from_Nil_iff)
          have "weave (splitlines_from [] ds) (terminators ds) @ trailing ds = [] @ ds"
            using 2(2) [OF br Cons crlf] .
          with br Cons crlf False ne show ?thesis
            by (simp add: weave_Cons)
        qed
      next
        case False
        have ne: "splitlines_from [] cs \<noteq> []"
          using Cons by (simp add: splitlines_from_Nil_iff)
        have "weave (splitlines_from [] cs) (terminators cs) @ trailing cs = [] @ cs"
          using 2(3) [OF br Cons False] .
        with br Cons False ne show ?thesis
          by (auto simp: weave_Cons)
      qed
    qed
  qed
qed

lemma trailing_Nil:
  "t = [] \<or> \<not> is_linebreak (last t) \<Longrightarrow> trailing t = []"
proof (induction t rule: trailing.induct)
  case 1
  show ?case by simp
next
  case (2 c cs)
  show ?case
  proof (cases cs)
    case Nil
    with "2.prems" show ?thesis by simp
  next
    case (Cons d ds)
    with "2.prems" have l: "\<not> is_linebreak (last cs)" by simp
    show ?thesis
    proof (cases "is_linebreak c")
      case False
      from "2.IH"(3) [OF False] l have tc: "trailing cs = []" by simp
      have "trailing (c # cs) = trailing cs" using False by simp
      with tc show ?thesis by (simp only:)
    next
      case br: True
      show ?thesis
      proof (cases "c = CHR 0x0D \<and> d = CHR 0x0A")
        case False
        from "2.IH"(2) [OF br Cons False] l have tc: "trailing cs = []" by simp
        have "trailing (c # cs) = trailing cs"
          using br Cons False
          by (auto simp add: trailing.simps(2) [of c "d # ds"] simp del: trailing.simps)
        with tc show ?thesis by (simp only:)
      next
        case crlf: True
        have d: "is_linebreak d"
          using crlf by (simp add: is_linebreak_def)
        have ds: "ds \<noteq> []"
        proof
          assume "ds = []"
          with Cons l d show False by simp
        qed
        with l Cons have "\<not> is_linebreak (last ds)" by simp
        with "2.IH"(1) [OF br Cons crlf ds] have tc: "trailing ds = []" by simp
        have "trailing (c # cs) = trailing ds"
          unfolding Cons trailing.simps(2) [of c "d # ds"]
          using br crlf ds by simp
        with tc show ?thesis by (simp only:)
      qed
    qed
  qed
qed

lemma laid_out_trailing_terminator:
  "laid_out ''a\<newline>'' =
     Inr \<lparr>ref_text = ''a\<newline>'', value_ref = 0, lines = [''a''],
          cursor_x = 0, cursor_y = 0, virtual_size = (1, 3)\<rparr>"
  by (simp add: laid_out_def on_resize_def update_lines_def TextArea_init_def splitlines_def
      is_linebreak_def wrap_line_def py_max_def NUM_LINES_def)

text \<open>
  C3, as stated, at a concrete input: the text \<open>a\<close> followed by one terminator. The
  wrapper produces the single line \<open>a\<close> and no trailing empty line, so there are no
  consecutive lines between which a terminator could be reinserted, and the round trip
  gives \<open>a\<close>: the trailing terminator of the reference text is lost.
\<close>

theorem rejoin_counterexample:
  "layout (laid_out ''a\<newline>'') = Inr [''a''] \<and> rejoin (laid_out ''a\<newline>'') = Inr ''a''"
  by (simp add: laid_out_trailing_terminator layout_def rejoin_def)

text \<open>
  C3, amended: for every reference text and every positive width, the lines that the
  wrapper produces are, in order, the chunks of the raw lines of the text, and the chunks
  of each raw line put together give that raw line again. Putting them together raw line
  by raw line and reinserting, between consecutive raw lines, the terminator that was
  stripped there reproduces the reference text up to a terminator at its very end, which
  is not reproduced. A text that does not end with a terminator, also one with no
  terminators at all, is reproduced exactly. For a text that is not empty the first
  layout of the widget holds exactly these lines.
\<close>

theorem wrap_round_trip:
  assumes w: "0 < window_len"
  shows "\<exists>G. line_groups (window_len * 2) (splitlines t) = Inr G \<and>
           wrap t window_len = Inr (concat G) \<and>
           (t \<noteq> [] \<longrightarrow> layout (update_lines window_len (TextArea_init t v)) = Inr (concat G)) \<and>
           map concat G = splitlines t \<and>
           weave (map concat G) (terminators t) @ trailing t = t \<and>
           (\<not> is_linebreak (last t) \<longrightarrow> weave (map concat G) (terminators t) = t)"
proof -
  from w have m: "0 < window_len * 2" by simp
  from line_groups_concat [OF m, of "splitlines t"] obtain G where
    G: "line_groups (window_len * 2) (splitlines t) = Inr G" "map concat G = splitlines t"
      "[] \<notin> set G"
    by blast
  have ext: "extend_lines (window_len * 2) [] (splitlines t) = Inr (concat G)"
    using extend_lines_groups [OF G(1), of "[]"] by simp
  have rt: "weave (map concat G) (terminators t) @ trailing t = t"
    using weave_splitlines_from [of "[]" t] by (simp add: G(2) splitlines_def)
  have lay: "layout (update_lines window_len (TextArea_init t v)) = Inr (concat G)"
    if "t \<noteq> []"
  proof -
    have "splitlines t \<noteq> []"
      using that by (simp add: splitlines_def splitlines_from_Nil_iff)
    with G(2) obtain g G' where g: "G = g # G'" by (cases G) auto
    with G(3) have "g \<noteq> []" by auto
    with g have "map length (concat G) \<noteq> []" by simp
    from py_max_nonempty [OF this] obtain k where "py_max (map length (concat G)) = Inr k" ..
    then show ?thesis
      by (simp add: layout_def update_lines_def TextArea_init_def ext)
  qed
  have exact: "weave (map concat G) (terminators t) = t" if "\<not> is_linebreak (last t)"
    using rt trailing_Nil [of t] that by simp
  show ?thesis
  proof (intro exI conjI impI)
    show "line_groups (window_len * 2) (splitlines t) = Inr G" by (rule G(1))
    show "wrap t window_len = Inr (concat G)" using ext by (simp add: wrap_def)
    show "layout (update_lines window_len (TextArea_init t v)) = Inr (concat G)" if "t \<noteq> []"
      using that by (rule lay)
    show "map concat G = splitlines t" by (rule G(2))
    show "weave (map concat G) (terminators t) @ trailing t = t" by (rule rt)
    show "weave (map concat G) (terminators t) = t" if "\<not> is_linebreak (last t)"
      using that by (rule exact)
  qed
qed

theorem wrap_round_trip_witness:
  "(0::int) < 1 \<and>
   (\<exists>G. line_groups 2 (splitlines ''AAAAA\<newline>bc'') = Inr G \<and>
      wrap ''AAAAA\<newline>bc'' 1 = Inr (concat G) \<and>
      layout (update_lines 1 (TextArea_init ''AAAAA\<newline>bc'' 0)) = Inr (concat G) \<and>
      map concat G = [''AAAAA'', ''bc''] \<and>
      weave (map concat G) (terminators ''AAAAA\<newline>bc'') = ''AAAAA\<newline>bc'')"
proof -
  have 1: "(0::int) < 1" by simp
  have s: "splitlines ''AAAAA\<newline>bc'' = [''AAAAA'', ''bc'']"
    by (simp add: splitlines_def is_linebreak_def)
  have l: "\<not> is_linebreak (last ''AAAAA\<newline>bc'')"
    by (simp add: is_linebreak_def)
  from wrap_round_trip [OF 1, of "''AAAAA\<newline>bc''" 0] obtain G where
    "line_groups (1 * 2) (splitlines ''AAAAA\<newline>bc'') = Inr G"
    "wrap ''AAAAA\<newline>bc'' 1 = Inr (concat G)"
    "layout (update_lines 1 (TextArea_init ''AAAAA\<newline>bc'' 0)) = Inr (concat G)"
    "map concat G = splitlines ''AAAAA\<newline>bc''"
    "weave (map concat G) (terminators ''AAAAA\<newline>bc'') = ''AAAAA\<newline>bc''"
    using l by auto
  then show ?thesis
    using 1 s by (intro conjI exI [of _ G]) simp_all
qed

lemma wrap_chunks_example:
  "wrap ''AAAAA\<newline>bc'' 1 = Inr [''AA'', ''AA'', ''A'', ''bc'']"
  by (simp add: wrap_def splitlines_def is_linebreak_def wrap_line_def py_range_def
      upt_conv_Cons)

section \<open>The edit operation\<close>

lemma replace_char_at_cursor_valid:
  assumes k: "py_index (length (pvalue (buffer w))) (cursor_index (area w)) = Inr k"
  shows "replace_char_at_cursor w c =
           Inr (w\<lparr>objects := (objects w)
                    (next_ref w := buffer w,
                     value_ref (area w) :=
                       (buffer w)\<lparr>pvalue := (pvalue (buffer w))[k := c]\<rparr>),
                  next_ref := Suc (next_ref w),
                  posted := posted w @
                    [\<lparr>previous = next_ref w, current = value_ref (area w)\<rparr>]\<rparr>)"
  using k
  by (simp add: replace_char_at_cursor_def deepcopy_def ps_setitem_def list_setitem_def
      buffer_def cursor_index_def)


text \<open>
  C5: when the index computed from the cursor lies in the buffer, the edit returns, the
  buffer afterwards is the buffer before with the cell at that index overwritten (every
  other cell and the length are as before), and the one message it posts carries as
  \<open>current\<close> the live reference of the widget and as \<open>previous\<close> a different object,
  which after the write still holds the buffer as it was before the edit. The widget
  refers to an object that exists: its reference is below \<open>next_ref\<close>.
\<close>

theorem edit_frame:
  assumes ref: "value_ref (area w) < next_ref w"
    and lo: "0 \<le> cursor_index (area w)"
    and hi: "cursor_index (area w) < int (length (pvalue (buffer w)))"
  shows "\<exists>w' e. replace_char_at_cursor w c = Inr w' \<and>
           pvalue (buffer w') = (pvalue (buffer w))[nat (cursor_index (area w)) := c] \<and>
           (\<forall>j. j \<noteq> nat (cursor_index (area w)) \<longrightarrow>
                pvalue (buffer w') ! j = pvalue (buffer w) ! j) \<and>
           length (pvalue (buffer w')) = length (pvalue (buffer w)) \<and>
           posted w' = posted w @ [e] \<and>
           current e = value_ref (area w') \<and>
           previous e \<noteq> current e \<and>
           objects w' (previous e) = buffer w"
proof -
  have k: "py_index (length (pvalue (buffer w))) (cursor_index (area w))
             = Inr (nat (cursor_index (area w)))"
    using lo hi by (simp add: py_index_inside)
  show ?thesis
    using ref by (simp add: replace_char_at_cursor_valid [OF k] buffer_def)
qed

lemma session_of_scenario1:
  "session_of scenario1 =
     \<lparr>area = \<lparr>ref_text = scenario_text, value_ref = 0,
               lines = [''Test'', ''Test'', ''TEsst''], cursor_x = 0, cursor_y = 0,
               virtual_size = (5, 9)\<rparr>,
      objects = (\<lambda>r. PartialString_init 0)(0 := PartialString_init 15),
      next_ref = 1, posted = [], on_change = None, calls = []\<rparr>"
  by (simp add: scenario1_eq session_of_def)


theorem edit_frame_witness:
  "value_ref (area (session_of scenario1)) < next_ref (session_of scenario1) \<and>
   0 \<le> cursor_index (area (session_of scenario1)) \<and>
   cursor_index (area (session_of scenario1))
     < int (length (pvalue (buffer (session_of scenario1)))) \<and>
   (\<exists>w' e. replace_char_at_cursor (session_of scenario1) (Some (CHR ''X'')) = Inr w' \<and>
      pvalue (buffer w') = (replicate 15 None)[0 := Some (CHR ''X'')] \<and>
      posted w' = [e] \<and> current e = value_ref (area w') \<and> previous e \<noteq> current e \<and>
      pvalue (objects w' (previous e)) = replicate 15 None)"
proof -
  have 1: "value_ref (area (session_of scenario1)) < next_ref (session_of scenario1)"
    by (simp add: session_of_scenario1)
  have 2: "0 \<le> cursor_index (area (session_of scenario1))"
    by (simp add: session_of_scenario1 cursor_index_def line_start_def slice_to_def)
  have 3: "cursor_index (area (session_of scenario1))
             < int (length (pvalue (buffer (session_of scenario1))))"
    by (simp add: session_of_scenario1 cursor_index_def line_start_def slice_to_def buffer_def
        PartialString_init_def)
  have i: "cursor_index (area (session_of scenario1)) = 0"
    by (simp add: session_of_scenario1 cursor_index_def line_start_def slice_to_def)
  have b: "buffer (session_of scenario1) = PartialString_init 15"
    by (simp add: session_of_scenario1 buffer_def)
  have p: "posted (session_of scenario1) = []"
    by (simp add: session_of_scenario1)
  from edit_frame [OF 1 2 3, of "Some (CHR ''X'')"] obtain w' e where
    "replace_char_at_cursor (session_of scenario1) (Some (CHR ''X'')) = Inr w'"
    "pvalue (buffer w') = (replicate 15 None)[0 := Some (CHR ''X'')]"
    "posted w' = [e]" "current e = value_ref (area w')" "previous e \<noteq> current e"
    "pvalue (objects w' (previous e)) = replicate 15 None"
    unfolding i b p by (auto simp: PartialString_init_def)
  with 1 2 3 show ?thesis by blast
qed

section \<open>Change events\<close>



text \<open>
  Backspace at the very start of scenario 1, without and with a callback: the cursor
  stays at \<open>(0, 0)\<close>, cell 0 is cleared although it is unknown already, one message is
  posted, its two buffers are equal, and handling it calls the callback once.
\<close>

lemma backspace_at_start:
  "cursor (keys_from scenario1 2 [KBackspace]) = Inr (0, 0) \<and>
   cells (keys_from scenario1 2 [KBackspace]) = Inr (replicate 15 None) \<and>
   posted (session_of (keys_from scenario1 2 [KBackspace])) = [\<lparr>previous = 1, current = 0\<rparr>]"
  by (simp add: keys_from_def scenario1_eq cursor_eval edit_eval cells_def cursor_def
      buffer_def PartialString_init_def eval_nat_numeral session_of_def)







section \<open>Backspace and delete\<close>

lemma set_cursor_x_inside:
  assumes "0 \<le> cursor_y a" "cursor_y a < int (length (lines a))"
    and "0 \<le> v" "v < int (length (lines a ! nat (cursor_y a)))"
  shows "set_cursor_x (Suc m) a v = Inr (a\<lparr>cursor_x := v\<rparr>)"
  using assms by (simp add: line_length_def list_getitem_def py_index_def)

lemma line_start_nonneg: "0 \<le> line_start a"
  by (auto simp: line_start_def intro!: sum_list_nonneg)

lemma line_start_cursor_x [simp]: "line_start (a\<lparr>cursor_x := v\<rparr>) = line_start a"
  by (simp add: line_start_def)

lemma cells_replace:
  assumes "0 \<le> cursor_index (area w)" "cursor_index (area w) < int (length (pvalue (buffer w)))"
  shows "cells (replace_char_at_cursor w c)
           = Inr ((pvalue (buffer w))[nat (cursor_index (area w)) := c])"
    and "cursor (replace_char_at_cursor w c) = Inr (cursor_x (area w), cursor_y (area w))"
proof -
  have k: "py_index (length (pvalue (buffer w))) (cursor_index (area w))
             = Inr (nat (cursor_index (area w)))"
    using assms by (simp add: py_index_inside)
  show "cells (replace_char_at_cursor w c)
           = Inr ((pvalue (buffer w))[nat (cursor_index (area w)) := c])"
    by (simp add: replace_char_at_cursor_valid [OF k] cells_def buffer_def)
  show "cursor (replace_char_at_cursor w c) = Inr (cursor_x (area w), cursor_y (area w))"
    by (simp add: replace_char_at_cursor_valid [OF k] cursor_def)
qed

text \<open>
  C6, as stated, at a concrete input: scenario 1 with \<open>A\<close> and \<open>B\<close> typed and the cursor
  moved back to the \<open>A\<close>. The delete key leaves the \<open>A\<close> under the cursor in place and
  clears the \<open>B\<close> to its right. Clearing first and moving right afterwards, the order
  that the claim gives for delete, would clear the \<open>A\<close> and keep the \<open>B\<close>.
\<close>

theorem delete_order_counterexample:
  "cells (keys_from scenario1 2
            [KPrintable (CHR ''A''), KPrintable (CHR ''B''), KLeft, KLeft, KDelete])
     = Inr ([Some (CHR ''A''), None] @ replicate 13 None) \<and>
   cells (and_then
            (keys_from scenario1 2 [KPrintable (CHR ''A''), KPrintable (CHR ''B''), KLeft, KLeft])
            (clear_then_move_right 2))
     = Inr ([None, Some (CHR ''B'')] @ replicate 13 None)"
  by (simp add: keys_from_def scenario1_eq cursor_eval edit_eval cells_def and_then_def
      clear_then_move_right_def buffer_def PartialString_init_def eval_nat_numeral)

text \<open>
  C6, amended: backspace first moves the cursor one position left, through the
  validation chain, and then clears the cell at the resulting position; delete first
  moves the cursor one position right, through the validation chain, and then clears
  the cell at the resulting position. So, with the cursor inside a line (a cell to its
  left and a cell to its right in the same line), backspace clears the cell left of the
  cursor and leaves the cursor on it, and delete clears the cell right of the cursor
  and leaves the cursor on it; the cell under the cursor before the key press is not
  touched by delete.
\<close>

theorem delete_moves_then_clears:
  "action_delete_left n w =
     and_then (with_area w (action_cursor_left n (area w))) (\<lambda>w1. replace_char_at_cursor w1 None) \<and>
   action_delete_right n w =
     and_then (with_area w (action_cursor_right n (area w))) (\<lambda>w1. replace_char_at_cursor w1 None) \<and>
   (0 < n \<and> 0 \<le> cursor_y (area w) \<and> cursor_y (area w) < int (length (lines (area w))) \<and>
    0 < cursor_x (area w) \<and>
    cursor_x (area w) + 1 < int (length (lines (area w) ! nat (cursor_y (area w)))) \<and>
    cursor_index (area w) + 1 < int (length (pvalue (buffer w))) \<longrightarrow>
      cells (action_delete_left n w)
        = Inr ((pvalue (buffer w))[nat (cursor_index (area w) - 1) := None]) \<and>
      cursor (action_delete_left n w) = Inr (cursor_x (area w) - 1, cursor_y (area w)) \<and>
      cells (action_delete_right n w)
        = Inr ((pvalue (buffer w))[nat (cursor_index (area w) + 1) := None]) \<and>
      cursor (action_delete_right n w) = Inr (cursor_x (area w) + 1, cursor_y (area w)))"
proof (intro conjI impI)
  show "action_delete_left n w =
     and_then (with_area w (action_cursor_left n (area w))) (\<lambda>w1. replace_char_at_cursor w1 None)"
    by (simp add: action_delete_left_def and_then_def action_cursor_left_def)
  show "action_delete_right n w =
     and_then (with_area w (action_cursor_right n (area w))) (\<lambda>w1. replace_char_at_cursor w1 None)"
    by (simp add: action_delete_right_def and_then_def action_cursor_right_def)
next
  assume h: "0 < n \<and> 0 \<le> cursor_y (area w) \<and> cursor_y (area w) < int (length (lines (area w))) \<and>
    0 < cursor_x (area w) \<and>
    cursor_x (area w) + 1 < int (length (lines (area w) ! nat (cursor_y (area w)))) \<and>
    cursor_index (area w) + 1 < int (length (pvalue (buffer w)))"
  then obtain m where n: "n = Suc m" by (cases n) auto
  let ?a = "area w"
  have left: "set_cursor_x (Suc m) ?a (cursor_x ?a - 1) = Inr (?a\<lparr>cursor_x := cursor_x ?a - 1\<rparr>)"
    using h by (intro set_cursor_x_inside) auto
  have right: "set_cursor_x (Suc m) ?a (cursor_x ?a + 1) = Inr (?a\<lparr>cursor_x := cursor_x ?a + 1\<rparr>)"
    using h by (intro set_cursor_x_inside) auto
  let ?wl = "w\<lparr>area := ?a\<lparr>cursor_x := cursor_x ?a - 1\<rparr>\<rparr>"
  let ?wr = "w\<lparr>area := ?a\<lparr>cursor_x := cursor_x ?a + 1\<rparr>\<rparr>"
  have dl: "action_delete_left n w = replace_char_at_cursor ?wl None"
    unfolding action_delete_left_def n left by (simp add: with_area_def)
  have dr: "action_delete_right n w = replace_char_at_cursor ?wr None"
    unfolding action_delete_right_def n right by (simp add: with_area_def)
  have il: "cursor_index (area ?wl) = cursor_index ?a - 1"
    and ir: "cursor_index (area ?wr) = cursor_index ?a + 1"
    by (simp_all add: cursor_index_def)
  have bl: "buffer ?wl = buffer w" and br: "buffer ?wr = buffer w"
    by (simp_all add: buffer_def)
  have lo: "0 \<le> cursor_index ?a - 1"
    using h line_start_nonneg [of ?a] by (simp add: cursor_index_def)
  have okl: "0 \<le> cursor_index (area ?wl)"
    "cursor_index (area ?wl) < int (length (pvalue (buffer ?wl)))"
    using lo h unfolding il bl by simp_all
  have okr: "0 \<le> cursor_index (area ?wr)"
    "cursor_index (area ?wr) < int (length (pvalue (buffer ?wr)))"
    using lo h unfolding ir br by simp_all
  show "cells (action_delete_left n w)
        = Inr ((pvalue (buffer w))[nat (cursor_index (area w) - 1) := None])"
    using cells_replace(1) [OF okl, of None] unfolding dl il bl .
  show "cursor (action_delete_left n w) = Inr (cursor_x (area w) - 1, cursor_y (area w))"
    using cells_replace(2) [OF okl, of None] unfolding dl by simp
  show "cells (action_delete_right n w)
        = Inr ((pvalue (buffer w))[nat (cursor_index (area w) + 1) := None])"
    using cells_replace(1) [OF okr, of None] unfolding dr ir br .
  show "cursor (action_delete_right n w) = Inr (cursor_x (area w) + 1, cursor_y (area w))"
    using cells_replace(2) [OF okr, of None] unfolding dr by simp
qed

lemma abc_session_facts:
  "area abc_session =
     \<lparr>ref_text = scenario_text, value_ref = 0, lines = [''Test'', ''Test'', ''TEsst''],
      cursor_x = 1, cursor_y = 0, virtual_size = (5, 9)\<rparr>"
  "pvalue (buffer abc_session) =
     [Some (CHR ''A''), Some (CHR ''B''), Some (CHR ''C'')] @ replicate 12 None"
  by (simp_all add: abc_session_def keys_from_def scenario1_eq cursor_eval edit_eval
      session_of_def buffer_def PartialString_init_def eval_nat_numeral)

theorem delete_moves_then_clears_witness:
  "(0 < (1::nat) \<and> 0 \<le> cursor_y (area abc_session) \<and>
    cursor_y (area abc_session) < int (length (lines (area abc_session))) \<and>
    0 < cursor_x (area abc_session) \<and>
    cursor_x (area abc_session) + 1
      < int (length (lines (area abc_session) ! nat (cursor_y (area abc_session)))) \<and>
    cursor_index (area abc_session) + 1 < int (length (pvalue (buffer abc_session)))) \<and>
   cells (action_delete_left 1 abc_session)
     = Inr ([None, Some (CHR ''B''), Some (CHR ''C'')] @ replicate 12 None) \<and>
   cursor (action_delete_left 1 abc_session) = Inr (0, 0) \<and>
   cells (action_delete_right 1 abc_session)
     = Inr ([Some (CHR ''A''), Some (CHR ''B''), None] @ replicate 12 None) \<and>
   cursor (action_delete_right 1 abc_session) = Inr (2, 0)"
proof -
  have i: "cursor_index (area abc_session) = 1"
    by (simp add: abc_session_facts cursor_index_def line_start_def slice_to_def)
  have h: "0 < (1::nat) \<and> 0 \<le> cursor_y (area abc_session) \<and>
    cursor_y (area abc_session) < int (length (lines (area abc_session))) \<and>
    0 < cursor_x (area abc_session) \<and>
    cursor_x (area abc_session) + 1
      < int (length (lines (area abc_session) ! nat (cursor_y (area abc_session)))) \<and>
    cursor_index (area abc_session) + 1 < int (length (pvalue (buffer abc_session)))"
    unfolding i by (simp add: abc_session_facts)
  from delete_moves_then_clears [of 1 abc_session, THEN conjunct2, THEN conjunct2, THEN mp, OF h]
  have "cells (action_delete_left 1 abc_session)
        = Inr ((pvalue (buffer abc_session))[nat (cursor_index (area abc_session) - 1) := None]) \<and>
      cursor (action_delete_left 1 abc_session)
        = Inr (cursor_x (area abc_session) - 1, cursor_y (area abc_session)) \<and>
      cells (action_delete_right 1 abc_session)
        = Inr ((pvalue (buffer abc_session))[nat (cursor_index (area abc_session) + 1) := None]) \<and>
      cursor (action_delete_right 1 abc_session)
        = Inr (cursor_x (area abc_session) + 1, cursor_y (area abc_session))"
    .
  then show ?thesis
    using h unfolding i by (simp add: abc_session_facts)
qed

section \<open>The cursor at the edges of a layout\<close>

lemma laid_out_blank_tail:
  "laid_out ''a\<newline>\<newline>'' =
     Inr \<lparr>ref_text = ''a\<newline>\<newline>'', value_ref = 0, lines = [''a'', ''''],
          cursor_x = 0, cursor_y = 0, virtual_size = (1, 6)\<rparr>"
  by (simp add: laid_out_def on_resize_def update_lines_def TextArea_init_def splitlines_def
      is_linebreak_def wrap_line_def py_max_def NUM_LINES_def)

text \<open>
  C2 at a concrete input: the text \<open>a\<close> followed by two terminators has the two lines
  \<open>a\<close> and the empty line. From the cursor \<open>(0, 0)\<close> the down arrow clamps the row to
  1, finds the line empty and adds the step once more: the cursor is at row 2 of a
  layout with two rows. The next right arrow reads the line of row 2 and fails with
  \<open>IndexError\<close>.
\<close>

theorem row_leaves_layout:
  "layout (laid_out ''a\<newline>\<newline>'') = Inr [''a'', ''''] \<and>
   position (moves 3 [MoveDown] (laid_out ''a\<newline>\<newline>'')) = Inr (0, 2) \<and>
   moves 3 [MoveDown, MoveRight] (laid_out ''a\<newline>\<newline>'') = Inl IndexError"
  by (simp add: laid_out_blank_tail layout_def position_def moves_def cursor_eval
      eval_nat_numeral)

lemma laid_out_two_lines:
  "laid_out ''ab\<newline>cd'' =
     Inr \<lparr>ref_text = ''ab\<newline>cd'', value_ref = 0, lines = [''ab'', ''cd''],
          cursor_x = 0, cursor_y = 0, virtual_size = (2, 6)\<rparr>"
  by (simp add: laid_out_def on_resize_def update_lines_def TextArea_init_def splitlines_def
      is_linebreak_def wrap_line_def py_max_def NUM_LINES_def)

lemma laid_out_blank_middle:
  "laid_out ''a\<newline>\<newline>b'' =
     Inr \<lparr>ref_text = ''a\<newline>\<newline>b'', value_ref = 0,
          lines = [''a'', '''', ''b''],
          cursor_x = 0, cursor_y = 0, virtual_size = (1, 9)\<rparr>"
  by (simp add: laid_out_def on_resize_def update_lines_def TextArea_init_def splitlines_def
      is_linebreak_def wrap_line_def py_max_def NUM_LINES_def)

text \<open>
  C9, as stated, at two concrete inputs. On the lines \<open>ab\<close>, \<open>cd\<close> with the cursor at
  \<open>(0, 0)\<close>, the column validator applied to the column 2 wraps to \<open>(0, 1)\<close>; applied
  to the column 2 once more, now on the last row, it gives \<open>(1, 1)\<close>. On the lines
  \<open>a\<close>, empty, \<open>b\<close> with the cursor at \<open>(0, 0)\<close>, the row validator applied to the row
  1 steps over the empty line to row 2; applied to the row 1 once more it steps over
  it in the other direction, back to row 0.
\<close>

theorem validators_not_idempotent:
  "position (assign_x 3 2 (laid_out ''ab\<newline>cd'')) = Inr (0, 1) \<and>
   position (assign_x 3 2 (assign_x 3 2 (laid_out ''ab\<newline>cd''))) = Inr (1, 1) \<and>
   position (assign_y 3 1 (laid_out ''a\<newline>\<newline>b'')) = Inr (0, 2) \<and>
   position (assign_y 3 1 (assign_y 3 1 (laid_out ''a\<newline>\<newline>b'')))
     = Inr (0, 0)"
  by (simp add: laid_out_two_lines laid_out_blank_middle position_def assign_x_def assign_y_def
      cursor_eval eval_nat_numeral)

section \<open>Cursor on a layout without an empty line\<close>

lemma clamp_row_range:
  "lines s \<noteq> [] \<Longrightarrow> 0 \<le> clamp_row s v \<and> clamp_row s v < int (length (lines s))"
  by (auto simp: clamp_row_def Let_def)

lemma clamp_row_inside:
  "0 \<le> v \<Longrightarrow> v < int (length (lines s)) \<Longrightarrow> clamp_row s v = v"
  by (simp add: clamp_row_def)

lemma line_len_pos:
  "no_empty_line s \<Longrightarrow> 0 \<le> y \<Longrightarrow> y < int (length (lines s)) \<Longrightarrow> 0 < line_len s y"
  by (simp add: no_empty_line_def line_len_def)

lemma getitem_row:
  "0 \<le> y \<Longrightarrow> y < int (length (lines s)) \<Longrightarrow> list_getitem (lines s) y = Inr (lines s ! nat y)"
  by (simp add: list_getitem_def py_index_def)

lemma line_length_row:
  "0 \<le> cursor_y s \<Longrightarrow> cursor_y s < int (length (lines s)) \<Longrightarrow>
   line_length s = Inr (line_len s (cursor_y s))"
  by (simp add: line_length_def getitem_row line_len_def)

lemma validate_cursor_x_within:
  assumes "0 \<le> cursor_y s" "cursor_y s < int (length (lines s))"
    and "0 \<le> v" "v < line_len s (cursor_y s)"
  shows "validate_cursor_x m s v = Inr (s, v)"
  using assms by (simp add: line_length_row)

lemma set_cursor_x_within:
  assumes "0 \<le> cursor_y s" "cursor_y s < int (length (lines s))"
    and "0 \<le> v" "v < line_len s (cursor_y s)"
  shows "set_cursor_x (Suc m) s v = Inr (s\<lparr>cursor_x := v\<rparr>)"
  using assms by (simp add: line_length_row)

lemma validate_cursor_y_good:
  assumes ne: "no_empty_line s" and ok: "cursor_ok s"
  shows "validate_cursor_y (Suc m) s v =
           Inr (if cursor_x s > line_len s (clamp_row s v)
                then s\<lparr>cursor_x := line_len s (clamp_row s v) - 1\<rparr> else s,
                clamp_row s v)"
proof -
  define y' where "y' = clamp_row s v"
  have y: "(if int (length (lines s)) \<le> (if v < 0 then 0 else v)
            then int (length (lines s)) - 1 else (if v < 0 then 0 else v)) = y'"
    by (simp add: y'_def clamp_row_def Let_def)
  have r: "0 \<le> y'" "y' < int (length (lines s))"
    using ne clamp_row_range [of s v] by (simp_all add: y'_def no_empty_line_def)
  have g: "list_getitem (lines s) y' = Inr (lines s ! nat y')"
    using r by (rule getitem_row)
  have pos: "0 < line_len s y'"
    using ne r by (rule line_len_pos)
  have len: "int (length (lines s ! nat y')) = line_len s y'"
    by (simp add: line_len_def)
  have nonempty: "lines s ! nat y' \<noteq> []"
    using pos by (auto simp: line_len_def)
  show ?thesis
  proof (cases "cursor_x s > line_len s y'")
    case False
    then show ?thesis
      unfolding validate_cursor_y.simps Let_def y g
      by (simp add: nonempty len y'_def [symmetric])
  next
    case True
    have c: "0 \<le> cursor_y s" "cursor_y s < int (length (lines s))"
      "cursor_x s \<le> line_len s (cursor_y s)"
      using ok by (simp_all add: cursor_ok_def line_len_def)
    have nested: "set_cursor_x (Suc m) s (line_len s y' - 1)
                    = Inr (s\<lparr>cursor_x := line_len s y' - 1\<rparr>)"
      using c pos True by (intro set_cursor_x_within) simp_all
    show ?thesis
      unfolding validate_cursor_y.simps Let_def y g
      using True by (simp add: nonempty len nested y'_def [symmetric] del: set_cursor_x.simps)
  qed
qed

lemma set_cursor_y_good:
  assumes ne: "no_empty_line s" and ok: "cursor_ok s"
  shows "set_cursor_y (Suc (Suc m)) s v =
           Inr (s\<lparr>cursor_x := (if cursor_x s > line_len s (clamp_row s v)
                                 then line_len s (clamp_row s v) - 1 else cursor_x s),
                  cursor_y := clamp_row s v\<rparr>)"
proof -
  have same: "cursor_y s = clamp_row s v \<Longrightarrow> t = s \<or> t = s\<lparr>cursor_x := x\<rparr> \<Longrightarrow>
              t = t\<lparr>cursor_y := clamp_row s v\<rparr>" for t x
    by auto
  show ?thesis
    unfolding set_cursor_y.simps validate_cursor_y_good [OF ne ok]
    by (auto simp: same)
qed

lemma set_cursor_x_negative:
  assumes ne: "no_empty_line s" and ok: "cursor_ok s" and v: "v < 0"
  shows "set_cursor_x (Suc (Suc (Suc m))) s v =
           Inr (s\<lparr>cursor_x := (if cursor_y s = 0 then 0 else line_len s (cursor_y s - 1) - 1),
                  cursor_y := (if cursor_y s = 0 then 0 else cursor_y s - 1)\<rparr>)"
proof -
  have c: "0 \<le> cursor_y s" "cursor_y s < int (length (lines s))"
    "0 \<le> cursor_x s" "cursor_x s \<le> line_len s (cursor_y s)"
    using ok by (simp_all add: cursor_ok_def line_len_def)
  define y1 where "y1 = (if cursor_y s = 0 then 0 else cursor_y s - 1)"
  have cl: "clamp_row s (cursor_y s - 1) = y1"
    using c by (auto simp: clamp_row_def y1_def)
  have r: "0 \<le> y1" "y1 < int (length (lines s))"
    using c by (auto simp: y1_def)
  have pos: "0 < line_len s y1"
    using ne r by (rule line_len_pos)
  define x1 where "x1 = (if cursor_x s > line_len s y1 then line_len s y1 - 1 else cursor_x s)"
  define s1 where "s1 = s\<lparr>cursor_x := x1, cursor_y := y1\<rparr>"
  have up: "set_cursor_y (Suc (Suc m)) s (cursor_y s - 1) = Inr s1"
    by (simp only: set_cursor_y_good [OF ne ok] cl s1_def x1_def)
  have s1: "cursor_y s1 = y1" "lines s1 = lines s" "cursor_x s1 = x1"
    by (simp_all add: s1_def)
  have ll: "line_length s1 = Inr (line_len s y1)"
    using r by (simp add: line_length_def getitem_row s1 line_len_def)
  define x' where "x' = (if cursor_y s = 0 then 0 else line_len s (cursor_y s - 1) - 1)"
  have x': "0 \<le> x'" "x' < line_len s y1"
    using pos by (auto simp: x'_def y1_def)
  have last: "cursor_y s1 + 1 = int (length (lines s1)) \<Longrightarrow> \<not> line_len s y1 \<le> x'"
    using x' by simp
  have val: "validate_cursor_x (Suc (Suc m)) s v = Inr (s1, x')"
    unfolding validate_cursor_x.simps [of "Suc (Suc m)" s v] up
    using v x' by (auto simp: ll s1 x'_def y1_def simp del: set_cursor_y.simps)
  have fin: "(if cursor_x s \<noteq> x' then s1\<lparr>cursor_x := x'\<rparr> else s1)
               = s\<lparr>cursor_x := x', cursor_y := y1\<rparr>"
    using x' by (auto simp: s1_def x1_def)
  have "set_cursor_x (Suc (Suc (Suc m))) s v = Inr (s\<lparr>cursor_x := x', cursor_y := y1\<rparr>)"
    unfolding set_cursor_x.simps val by (simp add: fin)
  then show ?thesis
    unfolding x'_def y1_def .
qed

lemma set_cursor_x_nonneg:
  assumes ne: "no_empty_line s" and ok: "cursor_ok s" and v: "0 \<le> v"
  shows "set_cursor_x (Suc (Suc (Suc m))) s v =
           Inr (if pull_back s v > line_len s (cursor_y s) - 1
                then s\<lparr>cursor_x := 0,
                       cursor_y := (if cursor_y s + 1 = int (length (lines s))
                                    then cursor_y s else cursor_y s + 1)\<rparr>
                else s\<lparr>cursor_x := pull_back s v\<rparr>)"
proof -
  have c: "0 \<le> cursor_y s" "cursor_y s < int (length (lines s))"
    "0 \<le> cursor_x s" "cursor_x s \<le> line_len s (cursor_y s)"
    using ok by (simp_all add: cursor_ok_def line_len_def)
  have ll: "line_length s = Inr (line_len s (cursor_y s))"
    using c by (simp add: line_length_row)
  define y3 where "y3 = (if cursor_y s + 1 = int (length (lines s))
                         then cursor_y s else cursor_y s + 1)"
  have cl: "clamp_row s (cursor_y s + 1) = y3"
    using c by (auto simp: clamp_row_def y3_def)
  have r: "0 \<le> y3" "y3 < int (length (lines s))"
    using c by (auto simp: y3_def)
  define x3 where "x3 = (if cursor_x s > line_len s y3 then line_len s y3 - 1 else cursor_x s)"
  define s3 where "s3 = s\<lparr>cursor_x := x3, cursor_y := y3\<rparr>"
  have down: "set_cursor_y (Suc (Suc m)) s (cursor_y s + 1) = Inr s3"
    by (simp only: set_cursor_y_good [OF ne ok] cl s3_def x3_def)
  define x2 where "x2 = pull_back s v"
  have stage2: "(if cursor_y s + 1 = int (length (lines s))
                 then (case line_length s of
                         Inl e \<Rightarrow> Inl e
                       | Inr l \<Rightarrow> Inr (if v \<ge> l then v - 1 else v))
                 else Inr v) = Inr x2"
    by (auto simp: ll x2_def pull_back_def)
  have val: "validate_cursor_x (Suc (Suc m)) s v =
               (if x2 > line_len s (cursor_y s) - 1 then Inr (s3, 0) else Inr (s, x2))"
    unfolding validate_cursor_x.simps [of "Suc (Suc m)" s v]
    using v by (simp add: stage2 ll down del: set_cursor_y.simps)
  have fin: "(if cursor_x s \<noteq> 0 then s3\<lparr>cursor_x := 0\<rparr> else s3)
               = s\<lparr>cursor_x := 0, cursor_y := y3\<rparr>"
    using ne r line_len_pos [of s y3] by (auto simp: s3_def x3_def)
  have "set_cursor_x (Suc (Suc (Suc m))) s v =
          Inr (if x2 > line_len s (cursor_y s) - 1
               then s\<lparr>cursor_x := 0, cursor_y := y3\<rparr> else s\<lparr>cursor_x := x2\<rparr>)"
    unfolding set_cursor_x.simps val by (simp add: fin)
  then show ?thesis
    unfolding x2_def y3_def .
qed

lemma set_cursor_y_result:
  assumes ne: "no_empty_line s" and ok: "cursor_ok s"
  obtains s' where "set_cursor_y (Suc (Suc m)) s v = Inr s'"
    and "lines s' = lines s" and "no_empty_line s'" and "cursor_ok s'"
    and "cursor_y s' = clamp_row s v"
proof -
  define y' where "y' = clamp_row s v"
  define x' where "x' = (if cursor_x s > line_len s y' then line_len s y' - 1 else cursor_x s)"
  define s' where "s' = s\<lparr>cursor_x := x', cursor_y := y'\<rparr>"
  have run: "set_cursor_y (Suc (Suc m)) s v = Inr s'"
    by (simp only: set_cursor_y_good [OF ne ok] s'_def x'_def y'_def)
  have l: "lines s' = lines s"
    by (simp add: s'_def)
  have r: "0 \<le> y'" "y' < int (length (lines s))"
    using ne clamp_row_range [of s v] by (simp_all add: y'_def no_empty_line_def)
  have pos: "0 < line_len s y'"
    using ne r by (rule line_len_pos)
  have "0 \<le> cursor_x s"
    using ok by (simp add: cursor_ok_def)
  with pos have x: "0 \<le> x'" "x' \<le> line_len s y'"
    by (auto simp: x'_def)
  have ok': "cursor_ok s'"
    using r x by (simp add: cursor_ok_def s'_def line_len_def)
  show thesis
  proof (rule that [OF run l _ ok'])
    show "no_empty_line s'" using ne l by (simp add: no_empty_line_def)
    show "cursor_y s' = clamp_row s v" by (simp add: s'_def y'_def)
  qed
qed

lemma set_cursor_x_result:
  assumes ne: "no_empty_line s" and ok: "cursor_ok s"
  obtains s' where "set_cursor_x (Suc (Suc (Suc m))) s v = Inr s'"
    and "lines s' = lines s" and "no_empty_line s'" and "cursor_ok s'"
    and "cursor_x s' < line_len s' (cursor_y s')"
proof -
  have c: "0 \<le> cursor_y s" "cursor_y s < int (length (lines s))"
    using ok by (simp_all add: cursor_ok_def)
  have pos: "0 < line_len s y" if "0 \<le> y" "y < int (length (lines s))" for y
    using ne that by (rule line_len_pos)
  define s' where "s' =
    (if v < 0
     then s\<lparr>cursor_x := (if cursor_y s = 0 then 0 else line_len s (cursor_y s - 1) - 1),
            cursor_y := (if cursor_y s = 0 then 0 else cursor_y s - 1)\<rparr>
     else if pull_back s v > line_len s (cursor_y s) - 1
          then s\<lparr>cursor_x := 0,
                 cursor_y := (if cursor_y s + 1 = int (length (lines s))
                              then cursor_y s else cursor_y s + 1)\<rparr>
          else s\<lparr>cursor_x := pull_back s v\<rparr>)"
  have run: "set_cursor_x (Suc (Suc (Suc m))) s v = Inr s'"
  proof (cases "v < 0")
    case True
    then show ?thesis
      by (simp only: set_cursor_x_negative [OF ne ok True] s'_def if_True)
  next
    case False
    then have "0 \<le> v" by simp
    from set_cursor_x_nonneg [OF ne ok this] False show ?thesis
      by (simp only: s'_def if_False)
  qed
  have l: "lines s' = lines s"
    by (simp add: s'_def)
  have pb: "0 \<le> pull_back s v" if "0 \<le> v"
    using that pos [OF c] by (auto simp: pull_back_def)
  have y: "0 \<le> cursor_y s'" "cursor_y s' < int (length (lines s))"
    using c by (auto simp: s'_def)
  have x: "0 \<le> cursor_x s' \<and> cursor_x s' < line_len s (cursor_y s')"
  proof -
    consider (top) "v < 0" "cursor_y s = 0"
      | (up) "v < 0" "cursor_y s \<noteq> 0"
      | (last) "\<not> v < 0" "pull_back s v > line_len s (cursor_y s) - 1"
          "cursor_y s + 1 = int (length (lines s))"
      | (down) "\<not> v < 0" "pull_back s v > line_len s (cursor_y s) - 1"
          "cursor_y s + 1 \<noteq> int (length (lines s))"
      | (stay) "\<not> v < 0" "\<not> pull_back s v > line_len s (cursor_y s) - 1"
      by blast
    then show ?thesis
    proof cases
      case top
      with pos [OF c] show ?thesis by (simp add: s'_def)
    next
      case up
      with c have "0 \<le> cursor_y s - 1" "cursor_y s - 1 < int (length (lines s))" by simp_all
      from pos [OF this] up show ?thesis by (simp add: s'_def)
    next
      case last
      with pos [OF c] show ?thesis by (simp add: s'_def)
    next
      case down
      with c have "0 \<le> cursor_y s + 1" "cursor_y s + 1 < int (length (lines s))" by simp_all
      from pos [OF this] down show ?thesis by (simp add: s'_def)
    next
      case stay
      with pb show ?thesis by (simp add: s'_def)
    qed
  qed
  have ok': "cursor_ok s'"
    using y x by (simp add: cursor_ok_def l line_len_def)
  show thesis
  proof (rule that [OF run l _ ok'])
    show "no_empty_line s'" using ne l by (simp add: no_empty_line_def)
    show "cursor_x s' < line_len s' (cursor_y s')"
      using x by (simp add: line_len_def l)
  qed
qed

lemma navigate_ok:
  assumes n: "3 \<le> n" and ne: "no_empty_line s" and ok: "cursor_ok s"
  shows "\<exists>s'. navigate n s mv = Inr s' \<and> lines s' = lines s \<and> no_empty_line s' \<and> cursor_ok s'"
proof -
  define k where "k = n - 3"
  from n have n3: "n = Suc (Suc (Suc k))" by (simp add: k_def)
  have x: "\<exists>s'. set_cursor_x n s v = Inr s' \<and> lines s' = lines s \<and> no_empty_line s' \<and> cursor_ok s'"
    for v
    using set_cursor_x_result [OF ne ok, of k v] n3 by metis
  have y: "\<exists>s'. set_cursor_y n s v = Inr s' \<and> lines s' = lines s \<and> no_empty_line s' \<and> cursor_ok s'"
    for v
    using set_cursor_y_result [OF ne ok, of "Suc k" v] n3 by metis
  show ?thesis
    by (cases mv)
      (simp_all add: action_cursor_left_def action_cursor_right_def action_cursor_up_def
        action_cursor_down_def x y del: set_cursor_x.simps set_cursor_y.simps)
qed

text \<open>
  On a layout with at least one line and no empty line, a cursor inside the layout stays
  inside it under every sequence of arrow keys, and no key press fails, at every call
  depth of at least 3.
\<close>

lemma navigate_all_ok:
  assumes n: "3 \<le> n"
  shows "no_empty_line s \<Longrightarrow> cursor_ok s \<Longrightarrow>
         \<exists>s'. navigate_all n s ms = Inr s' \<and> lines s' = lines s \<and> cursor_ok s'"
proof (induction ms arbitrary: s)
  case Nil
  then show ?case by simp
next
  case (Cons mv ms)
  from navigate_ok [OF n Cons.prems, of mv] obtain s1 where
    s1: "navigate n s mv = Inr s1" "lines s1 = lines s" "no_empty_line s1" "cursor_ok s1"
    by blast
  from Cons.IH [OF s1(3,4)] obtain s' where
    "navigate_all n s1 ms = Inr s'" "lines s' = lines s1" "cursor_ok s'"
    by blast
  with s1 show ?case by simp
qed

lemma set_cursor_y_fixed:
  assumes ne: "no_empty_line s" and ok: "cursor_ok s" and v: "clamp_row s v = cursor_y s"
  shows "set_cursor_y (Suc (Suc m)) s v = Inr s"
proof -
  have "\<not> cursor_x s > line_len s (cursor_y s)"
    using ok by (simp add: cursor_ok_def line_len_def)
  then show ?thesis
    by (simp add: set_cursor_y_good [OF ne ok] v del: set_cursor_y.simps)
qed

lemma set_cursor_x_fixed:
  assumes ok: "cursor_ok s" and x: "cursor_x s < line_len s (cursor_y s)"
  shows "set_cursor_x (Suc m) s (cursor_x s) = Inr s"
proof -
  have c: "0 \<le> cursor_y s" "cursor_y s < int (length (lines s))" "0 \<le> cursor_x s"
    using ok by (simp_all add: cursor_ok_def)
  show ?thesis
    by (simp add: set_cursor_x_within [OF c(1,2) c(3) x] del: set_cursor_x.simps)
qed

text \<open>
  C9, amended: on a layout with at least one line and no empty line, and from a cursor
  inside the layout, the row validator is idempotent: assigning the same row twice
  gives the state that assigning it once gives, and assigning the stored row again
  changes nothing. The column validator is stable on what it has stored: after any
  column has been assigned, assigning the stored column again changes nothing. (The
  same column request repeated may move on, since a request past the end of a line
  wraps to the next line.) This holds at every call depth of at least 3.
\<close>

theorem revalidation_stable:
  assumes n: "3 \<le> n" and ne: "no_empty_line s" and ok: "cursor_ok s"
  shows "assign_y n v (set_cursor_y n s v) = set_cursor_y n s v \<and>
         (\<exists>s'. set_cursor_y n s v = Inr s' \<and> set_cursor_y n s' (cursor_y s') = Inr s') \<and>
         (\<exists>s'. set_cursor_x n s v = Inr s' \<and> set_cursor_x n s' (cursor_x s') = Inr s')"
proof -
  define k where "k = n - 3"
  from n have ny: "n = Suc (Suc (Suc k))" by (simp add: k_def)
  obtain s1 where s1: "set_cursor_y n s v = Inr s1" "lines s1 = lines s" "no_empty_line s1"
      "cursor_ok s1" "cursor_y s1 = clamp_row s v"
    using set_cursor_y_result [OF ne ok, of "Suc k" v] ny by metis
  have "clamp_row s1 v = cursor_y s1"
    using s1(2,5) by (simp add: clamp_row_def)
  from set_cursor_y_fixed [OF s1(3,4) this, of "Suc k"]
  have again: "set_cursor_y n s1 v = Inr s1"
    unfolding ny .
  have "0 \<le> cursor_y s1" "cursor_y s1 < int (length (lines s1))"
    using s1(4) by (simp_all add: cursor_ok_def)
  then have "clamp_row s1 (cursor_y s1) = cursor_y s1"
    by (rule clamp_row_inside)
  from set_cursor_y_fixed [OF s1(3,4) this, of "Suc k"]
  have stored: "set_cursor_y n s1 (cursor_y s1) = Inr s1"
    unfolding ny .
  obtain s2 where s2: "set_cursor_x n s v = Inr s2" "cursor_ok s2"
      "cursor_x s2 < line_len s2 (cursor_y s2)"
    using set_cursor_x_result [OF ne ok, of k v] ny by metis
  from set_cursor_x_fixed [OF s2(2,3), of "Suc (Suc k)"]
  have column: "set_cursor_x n s2 (cursor_x s2) = Inr s2"
    unfolding ny .
  show ?thesis
  proof (intro conjI)
    show "assign_y n v (set_cursor_y n s v) = set_cursor_y n s v"
      by (simp add: s1(1) assign_y_def again del: set_cursor_y.simps)
    show "\<exists>s'. set_cursor_y n s v = Inr s' \<and> set_cursor_y n s' (cursor_y s') = Inr s'"
      using s1(1) stored by blast
    show "\<exists>s'. set_cursor_x n s v = Inr s' \<and> set_cursor_x n s' (cursor_x s') = Inr s'"
      using s2(1) column by blast
  qed
qed

lemma widget_two_lines:
  "widget_of (laid_out ''ab\<newline>cd'') =
     \<lparr>ref_text = ''ab\<newline>cd'', value_ref = 0, lines = [''ab'', ''cd''],
      cursor_x = 0, cursor_y = 0, virtual_size = (2, 6)\<rparr>"
  by (simp add: laid_out_two_lines widget_of_def)

theorem revalidation_stable_witness:
  "(3::nat) \<le> 3 \<and> cursor_ok (widget_of (laid_out ''ab\<newline>cd'')) \<and>
   assign_y 3 2 (set_cursor_y 3 (widget_of (laid_out ''ab\<newline>cd'')) 2)
     = set_cursor_y 3 (widget_of (laid_out ''ab\<newline>cd'')) 2 \<and>
   (\<exists>s'. set_cursor_y 3 (widget_of (laid_out ''ab\<newline>cd'')) 2 = Inr s' \<and>
         set_cursor_y 3 s' (cursor_y s') = Inr s') \<and>
   (\<exists>s'. set_cursor_x 3 (widget_of (laid_out ''ab\<newline>cd'')) 2 = Inr s' \<and>
         set_cursor_x 3 s' (cursor_x s') = Inr s')"
proof -
  have 1: "(3::nat) \<le> 3" by simp
  have 2: "no_empty_line (widget_of (laid_out ''ab\<newline>cd''))"
    by (simp add: widget_two_lines no_empty_line_def)
  have 3: "cursor_ok (widget_of (laid_out ''ab\<newline>cd''))"
    by (simp add: widget_two_lines cursor_ok_def)
  note r = revalidation_stable [OF 1 2 3, of 2]
  show ?thesis
  proof (intro conjI)
    show "(3::nat) \<le> 3" by (rule 1)
    show "cursor_ok (widget_of (laid_out ''ab\<newline>cd''))" by (rule 3)
    show "assign_y 3 2 (set_cursor_y 3 (widget_of (laid_out ''ab\<newline>cd'')) 2)
            = set_cursor_y 3 (widget_of (laid_out ''ab\<newline>cd'')) 2"
      by (rule r [THEN conjunct1])
    show "\<exists>s'. set_cursor_y 3 (widget_of (laid_out ''ab\<newline>cd'')) 2 = Inr s' \<and>
            set_cursor_y 3 s' (cursor_y s') = Inr s'"
      by (rule r [THEN conjunct2, THEN conjunct1])
    show "\<exists>s'. set_cursor_x 3 (widget_of (laid_out ''ab\<newline>cd'')) 2 = Inr s' \<and>
            set_cursor_x 3 s' (cursor_x s') = Inr s'"
      by (rule r [THEN conjunct2, THEN conjunct2])
  qed
qed

section \<open>A key press that does not return\<close>

text \<open>
  The text \<open>abc\<close>, an empty line, \<open>abcd\<close>: down and three times right put the cursor
  at column 3 of row 2. Moving up from there, the row validator lands on the empty line
  and assigns column \<open>-1\<close>; the column validator steps the row back by one, which runs
  the row validator on the same state again. The chain uses up every call depth.
\<close>

lemma laid_out_blank_between:
  "laid_out ''abc\<newline>\<newline>abcd'' =
     Inr \<lparr>ref_text = ''abc\<newline>\<newline>abcd'', value_ref = 0,
          lines = [''abc'', [], ''abcd''],
          cursor_x = 0, cursor_y = 0, virtual_size = (4, 9)\<rparr>"
  by (simp add: laid_out_def on_resize_def update_lines_def TextArea_init_def splitlines_def
      is_linebreak_def wrap_line_def py_max_def NUM_LINES_def)

lemma before_up:
  "moves 3 [MoveDown, MoveRight, MoveRight, MoveRight] (laid_out ''abc\<newline>\<newline>abcd'') =
     Inr \<lparr>ref_text = ''abc\<newline>\<newline>abcd'', value_ref = 0,
          lines = [''abc'', [], ''abcd''],
          cursor_x = 3, cursor_y = 2, virtual_size = (4, 9)\<rparr>"
  by (simp add: laid_out_blank_between moves_def cursor_eval eval_nat_numeral)

lemma up_exhausts_every_depth:
  fixes s :: TextArea
  assumes s: "lines s = [''abc'', [], ''abcd'']" "cursor_x s = 3" "cursor_y s = 2"
  shows "set_cursor_y n s 1 = Inl RecursionError \<and> set_cursor_x n s (- 1) = Inl RecursionError"
proof (induction n)
  case 0
  show ?case by simp
next
  case (Suc n)
  have y: "validate_cursor_y n s 1 = Inl RecursionError"
    using Suc.IH by (simp add: s list_getitem_def py_index_def del: set_cursor_x.simps)
  have x: "validate_cursor_x n s (- 1) = Inl RecursionError"
    unfolding validate_cursor_x.simps [of n s "- 1"]
    using Suc.IH by (simp add: s del: set_cursor_y.simps)
  show ?case
    by (simp add: x y del: validate_cursor_x.simps validate_cursor_y.simps)
qed

section \<open>Width zero, for every text\<close>

text \<open>
  At width 0 the layout ends in \<open>ValueError\<close> for every text that is not empty, and
  for the empty text on a widget that has no lines yet.
\<close>

lemma width_zero_always_raises:
  assumes "ref_text s \<noteq> [] \<or> lines s = []"
  shows "update_lines 0 s = Inl ValueError"
proof (cases "splitlines (ref_text s)")
  case Nil
  then have "ref_text s = []"
    by (simp add: splitlines_def splitlines_from_Nil_iff)
  with assms Nil show ?thesis
    by (simp add: update_lines_def py_max_def)
next
  case (Cons x xs)
  then show ?thesis
    by (simp add: update_lines_def wrap_line_def py_range_def)
qed

end
